theory Spec2Isabelle
  imports Main "HOL-Library.Word" "HOL-Library.Signed_Division" "HOL-Library.Sublist"
begin

section \<open>Record search expressions (recordsearch.go)\<close>

subsection \<open>Records, errors and the library functions the code calls\<close>

text \<open>
  A \<open>RecordResult\<close> is used through its \<open>Identifier()\<close> method and its \<open>Content\<close>
  field only. Go strings are byte strings: \<open>string\<close>.
\<close>

record RecordResult =
  Identifier :: string
  Content :: string

text \<open>
  Go errors as values. \<open>Errorf msg\<close> is the error built by \<open>fmt.Errorf\<close> with the
  formatted message \<open>msg\<close>; \<open>etoken expected actual\<close> is the parser's own error type;
  \<open>ErrSyntax\<close> is the only error \<open>strconv.Unquote\<close> returns; \<open>LibError\<close> stands for
  the errors of the xmlpath package.
\<close>

datatype error =
    Errorf string
  | etoken int int
  | ErrSyntax
  | LibError string

text \<open>
  Functions of Go's standard library, of the xmlpath package and of the rest of this
  program that the two source files call and do not define. They are parameters of the
  model: \<open>xmlpath_Compile\<close>, \<open>xmlpath_Parse\<close> and \<open>Path_String\<close> (xmlpath),
  \<open>strings_TrimSpace\<close> and \<open>strings_Replace\<close> (the latter with count \<open>-1\<close>),
  \<open>strconv_Unquote\<close> (\<open>None\<close> is \<open>ErrSyntax\<close>), \<open>scanner_TokenString\<close>,
  \<open>scanner_Scan\<close> (the tokens, each with its text, that successive calls of \<open>Scan\<close>
  return before \<open>EOF\<close> on a scanner initialised on the given string in the mode
  \<open>ParseRSExpr\<close> sets),
  \<open>EscapeIdForFilename\<close>, \<open>path_Base\<close>, \<open>path_Dir\<close>, \<open>filepath_Join\<close> (of two
  elements), and \<open>os_Create_ok\<close>, which says whether \<open>os.Create\<close> succeeds on a path.
\<close>

record ('p, 'n) golib =
  xmlpath_Compile :: "string \<Rightarrow> error + 'p"
  xmlpath_Parse :: "string \<Rightarrow> error + 'n"
  Path_String :: "'p \<Rightarrow> 'n \<Rightarrow> string \<times> bool"
  strings_TrimSpace :: "string \<Rightarrow> string"
  strings_Replace :: "string \<Rightarrow> string \<Rightarrow> string \<Rightarrow> string"
  strconv_Unquote :: "string \<Rightarrow> string option"
  scanner_TokenString :: "int \<Rightarrow> string"
  scanner_Scan :: "string \<Rightarrow> (int \<times> string) list"
  EscapeIdForFilename :: "string \<Rightarrow> string"
  path_Base :: "string \<Rightarrow> string"
  path_Dir :: "string \<Rightarrow> string"
  filepath_Join :: "string \<Rightarrow> string \<Rightarrow> string"
  os_Create_ok :: "string \<Rightarrow> bool"

subsection \<open>Values\<close>

datatype RSExprValue = RSString string | RSBool bool

fun Bool :: "RSExprValue \<Rightarrow> bool" where
  "Bool (RSString s) = (s \<noteq> [])"
| "Bool (RSBool b) = b"

fun String :: "RSExprValue \<Rightarrow> string" where
  "String (RSString s) = s"
| "String (RSBool b) = (if b then ''true'' else ''false'')"

type_synonym RSNativeFunction = "RecordResult \<Rightarrow> RSExprValue list \<Rightarrow> error + RSExprValue"

subsection \<open>AST nodes and their evaluation\<close>

datatype RSExprAst =
    RSExprFnCall (Fn: RSNativeFunction) (FnArgs: "RSExprAst list")
  | RSExprLiteral (val: RSExprValue)

text \<open>
  \<open>RSExprFnCall.Evaluate\<close> fills \<open>argValues\<close> in a loop over the indices of \<open>FnArgs\<close>
  and returns from inside the loop at the first error; \<open>evalArgs\<close> is that loop.
\<close>

fun Evaluate :: "RSExprAst \<Rightarrow> RecordResult \<Rightarrow> error + RSExprValue"
  and evalArgs :: "RSExprAst list \<Rightarrow> RecordResult \<Rightarrow> error + RSExprValue list" where
  "Evaluate (RSExprFnCall fn args) rr =
     (case evalArgs args rr of
        Inl err \<Rightarrow> Inl err
      | Inr argValues \<Rightarrow> fn rr argValues)"
| "Evaluate (RSExprLiteral v) rr = Inr v"
| "evalArgs [] rr = Inr []"
| "evalArgs (a # as) rr =
     (case Evaluate a rr of
        Inl err \<Rightarrow> Inl err
      | Inr v \<Rightarrow>
          (case evalArgs as rr of
             Inl err \<Rightarrow> Inl err
           | Inr vs \<Rightarrow> Inr (v # vs)))"

text \<open>\<open>ExprRecordSearcher\<close> holds one AST; \<open>SearchRecord\<close> returns Go's triple.\<close>

record ExprRecordSearcher =
  ast :: RSExprAst

definition SearchRecord :: "ExprRecordSearcher \<Rightarrow> RecordResult \<Rightarrow> bool \<times> string \<times> error option" where
  "SearchRecord ers rr =
     (case Evaluate (ast ers) rr of
        Inl err \<Rightarrow> (False, [], Some err)
      | Inr res \<Rightarrow> (Bool res, String res, None))"

subsection \<open>Native functions\<close>

definition strings_HasPrefix :: "string \<Rightarrow> string \<Rightarrow> bool" where
  "strings_HasPrefix s p = prefix p s"

definition strings_Contains :: "string \<Rightarrow> string \<Rightarrow> bool" where
  "strings_Contains s sub = sublist sub s"

definition fn_xp :: "('p, 'n) golib \<Rightarrow> RSNativeFunction" where
  "fn_xp lib rr args =
     (if length args \<noteq> 1 then Inl (Errorf ''xp() expects exactly 1 argument'')
      else case xmlpath_Compile lib (String (args ! 0)) of
        Inl err \<Rightarrow> Inl err
      | Inr path \<Rightarrow>
          (case xmlpath_Parse lib (Content rr) of
             Inl err \<Rightarrow> Inl err
           | Inr n \<Rightarrow> Inr (RSString (strings_TrimSpace lib (fst (Path_String lib path n))))))"

definition fn_concat :: RSNativeFunction where
  "fn_concat rr args = Inr (RSString (concat (map String args)))"

definition fn_startsWith :: RSNativeFunction where
  "fn_startsWith rr args =
     (if length args \<noteq> 2 then Inl (Errorf ''startsWith() expects exactly 2 argument'')
      else if strings_HasPrefix (String (args ! 0)) (String (args ! 1)) then Inr (args ! 0)
      else Inr (RSString []))"

definition fn_contains :: RSNativeFunction where
  "fn_contains rr args =
     (if length args \<noteq> 2 then Inl (Errorf ''contains() expects exactly 2 argument'')
      else if strings_Contains (String (args ! 0)) (String (args ! 1)) then Inr (args ! 0)
      else Inr (RSString []))"

definition fn_urn :: RSNativeFunction where
  "fn_urn rr args = Inr (RSString (Identifier rr))"

definition fn_replace :: "('p, 'n) golib \<Rightarrow> RSNativeFunction" where
  "fn_replace lib rr args =
     (if length args \<noteq> 3 then Inl (Errorf ''contains() expects exactly 3 argument'')
      else Inr (RSString (strings_Replace lib (String (args ! 0)) (String (args ! 1))
                            (String (args ! 2)))))"

definition NATIVE_FUNCTIONS :: "('p, 'n) golib \<Rightarrow> string \<rightharpoonup> RSNativeFunction" where
  "NATIVE_FUNCTIONS lib =
     map_of [(''xp'', fn_xp lib),
             (''concat'', fn_concat),
             (''startsWith'', fn_startsWith),
             (''contains'', fn_contains),
             (''urn'', fn_urn),
             (''replace'', fn_replace lib)]"

subsection \<open>The parser\<close>

text \<open>
  Tokens are runes: the scanner's token classes are negative, a punctuation character is
  its code point (\<open>40\<close>, \<open>41\<close> and \<open>44\<close> for the two parentheses and the
  comma). The field \<open>scan\<close> of the parser holds the tokens the scanner has not returned
  yet; once they are used up, \<open>Scan\<close> returns \<open>EOF\<close> with an empty token text. Each
  parsing method returns its result together with the parser it leaves behind.
\<close>

definition scanner_EOF :: int where "scanner_EOF = -1"
definition scanner_Ident :: int where "scanner_Ident = -2"
definition scanner_String :: int where "scanner_String = -6"
definition scanner_RawString :: int where "scanner_RawString = -7"

record recordSearchParser =
  scan :: "(int \<times> string) list"
  tok :: int
  tokText :: string

definition nextToken :: "recordSearchParser \<Rightarrow> recordSearchParser" where
  "nextToken rsp =
     (if tok rsp \<noteq> scanner_EOF then
        (case scan rsp of
           [] \<Rightarrow> rsp\<lparr>tok := scanner_EOF, tokText := []\<rparr>
         | (k, txt) # rest \<Rightarrow> rsp\<lparr>scan := rest, tok := k, tokText := txt\<rparr>)
      else rsp)"

definition nextTokenIs :: "recordSearchParser \<Rightarrow> int \<Rightarrow> bool" where
  "nextTokenIs rsp t = (tok rsp = t)"

definition consume :: "recordSearchParser \<Rightarrow> int \<Rightarrow> (error + string) \<times> recordSearchParser" where
  "consume rsp t =
     (if tok rsp = t then (Inr (tokText rsp), nextToken rsp)
      else (Inl (etoken t (tok rsp)), rsp))"

definition readString :: "('p, 'n) golib \<Rightarrow> recordSearchParser \<Rightarrow> (error + string) \<times> recordSearchParser" where
  "readString lib rsp =
     (if tok rsp = scanner_String \<or> tok rsp = scanner_RawString then
        (case strconv_Unquote lib (tokText rsp) of
           None \<Rightarrow> (Inl ErrSyntax, rsp)
         | Some s \<Rightarrow> (Inr s, snd (consume rsp (tok rsp))))
      else (Inl (Errorf (''Expected string but got '' @ scanner_TokenString lib (tok rsp) @ [CHR 0x0A])), rsp))"

definition parseAtom :: "('p, 'n) golib \<Rightarrow> recordSearchParser \<Rightarrow> (error + RSExprAst) \<times> recordSearchParser" where
  "parseAtom lib rsp =
     (case readString lib rsp of
        (Inl err, rsp') \<Rightarrow> (Inl err, rsp')
      | (Inr str, rsp') \<Rightarrow> (Inr (RSExprLiteral (RSString str)), rsp'))"

definition remaining :: "recordSearchParser \<Rightarrow> nat" where
  "remaining rsp = (if tok rsp = scanner_EOF then 0 else Suc (length (scan rsp)))"

function parseExpr :: "('p, 'n) golib \<Rightarrow> recordSearchParser \<Rightarrow> (error + RSExprAst) \<times> recordSearchParser"
  and parseFn :: "('p, 'n) golib \<Rightarrow> recordSearchParser \<Rightarrow> (error + RSExprAst) \<times> recordSearchParser"
  and parseFnArgs :: "('p, 'n) golib \<Rightarrow> recordSearchParser \<Rightarrow> RSExprAst list \<Rightarrow> (error + RSExprAst list) \<times> recordSearchParser"
  where
  "parseExpr lib rsp =
     (if tok rsp = scanner_Ident then parseFn lib rsp else parseAtom lib rsp)"
| "parseFn lib rsp =
     (case consume rsp scanner_Ident of
        (Inl err, rsp1) \<Rightarrow> (Inl err, rsp1)
      | (Inr fnName, rsp1) \<Rightarrow>
          (case NATIVE_FUNCTIONS lib fnName of
             None \<Rightarrow> (Inl (Errorf (''No such function: '' @ fnName)), rsp1)
           | Some fn \<Rightarrow>
               if nextTokenIs rsp1 40 then
                 (case parseFnArgs lib (snd (consume rsp1 40)) [] of
                    (Inl err, rsp2) \<Rightarrow> (Inl err, rsp2)
                  | (Inr args, rsp2) \<Rightarrow>
                      (case consume rsp2 41 of
                         (Inl err, rsp3) \<Rightarrow> (Inl err, rsp3)
                       | (Inr _, rsp3) \<Rightarrow> (Inr (RSExprFnCall fn args), rsp3)))
               else (Inr (RSExprFnCall fn []), rsp1)))"
| "parseFnArgs lib rsp args =
     (if tok rsp \<noteq> 41 then
        (case (if length args > 0 then consume rsp 44 else (Inr [], rsp)) of
           (Inl err, rsp1) \<Rightarrow> (Inl err, rsp1)
         | (Inr _, rsp1) \<Rightarrow>
             (case parseExpr lib rsp1 of
                (Inl err, rsp2) \<Rightarrow> (Inl err, rsp2)
              | (Inr arg, rsp2) \<Rightarrow> parseFnArgs lib rsp2 (args @ [arg])))
      else (Inr args, rsp))"
  by pat_completeness auto

lemma remaining_nextToken_le: "remaining (nextToken rsp) \<le> remaining rsp"
  by (auto simp: remaining_def nextToken_def split: list.splits)

lemma remaining_nextToken_less: "tok rsp \<noteq> scanner_EOF \<Longrightarrow> remaining (nextToken rsp) < remaining rsp"
  by (auto simp: remaining_def nextToken_def split: list.splits)

lemma remaining_consume_le: "remaining (snd (consume rsp t)) \<le> remaining rsp"
  by (simp add: consume_def remaining_nextToken_le)

lemma remaining_consume_less:
  "consume rsp t = (Inr x, rsp') \<Longrightarrow> t \<noteq> scanner_EOF \<Longrightarrow> remaining rsp' < remaining rsp"
  by (auto simp: consume_def remaining_nextToken_less split: if_splits)

lemma remaining_parseAtom:
  "parseAtom lib rsp = (Inr a, rsp') \<Longrightarrow> remaining rsp' < remaining rsp"
  by (auto simp: parseAtom_def readString_def consume_def scanner_String_def scanner_RawString_def
      scanner_EOF_def intro!: remaining_nextToken_less[unfolded scanner_EOF_def] split: if_splits option.splits prod.splits sum.splits)

lemma parse_dom_remaining:
  "parseExpr_parseFn_parseFnArgs_dom (Inl (lib, rsp)) \<Longrightarrow>
     (\<forall>a rsp'. parseExpr lib rsp = (Inr a, rsp') \<longrightarrow> remaining rsp' < remaining rsp)"
  "parseExpr_parseFn_parseFnArgs_dom (Inr (Inl (lib, rsp))) \<Longrightarrow>
     (\<forall>a rsp'. parseFn lib rsp = (Inr a, rsp') \<longrightarrow> remaining rsp' < remaining rsp)"
  "parseExpr_parseFn_parseFnArgs_dom (Inr (Inr (lib, rsp, args))) \<Longrightarrow>
     (\<forall>as rsp'. parseFnArgs lib rsp args = (Inr as, rsp') \<longrightarrow> remaining rsp' \<le> remaining rsp)"
proof (induction rule: parseExpr_parseFn_parseFnArgs.pinduct)
  case (1 lib rsp)
  then show ?case
    by (auto simp: parseExpr.psimps dest: remaining_parseAtom)
next
  case (2 lib rsp)
  show ?case
  proof (intro allI impI)
    fix a rsp'
    assume eq: "parseFn lib rsp = (Inr a, rsp')"
    from eq obtain fnName rsp1 fn where
      c: "consume rsp scanner_Ident = (Inr fnName, rsp1)" and
      f: "NATIVE_FUNCTIONS lib fnName = Some fn"
      by (auto simp: parseFn.psimps[OF 2(1)] split: prod.splits sum.splits option.splits)
    have r1: "remaining rsp1 < remaining rsp"
      using remaining_consume_less[OF c] by (simp add: scanner_Ident_def scanner_EOF_def)
    show "remaining rsp' < remaining rsp"
    proof (cases "nextTokenIs rsp1 40")
      case False
      with eq c f have "rsp' = rsp1"
        by (simp add: parseFn.psimps[OF 2(1)])
      with r1 show ?thesis by simp
    next
      case True
      with eq c f obtain args rsp2 where
        a: "parseFnArgs lib (snd (consume rsp1 40)) [] = (Inr args, rsp2)" and
        e: "rsp' = snd (consume rsp2 41)"
        by (auto simp: parseFn.psimps[OF 2(1)] split: prod.splits sum.splits)
      have "remaining rsp2 \<le> remaining (snd (consume rsp1 40))"
        using 2(2)[OF c[symmetric] refl f True] a by blast
      also have "\<dots> \<le> remaining rsp1" by (rule remaining_consume_le)
      finally have "remaining rsp2 \<le> remaining rsp1" .
      moreover have "remaining rsp' \<le> remaining rsp2"
        unfolding e by (rule remaining_consume_le)
      ultimately show ?thesis using r1 by simp
    qed
  qed
next
  case (3 lib rsp args)
  show ?case
  proof (intro allI impI)
    fix as rsp'
    assume eq: "parseFnArgs lib rsp args = (Inr as, rsp')"
    show "remaining rsp' \<le> remaining rsp"
    proof (cases "tok rsp \<noteq> 41")
      case False
      with eq show ?thesis by (simp add: parseFnArgs.psimps[OF 3(1)])
    next
      case True
      define c where "c = (if 0 < length args then consume rsp 44 else (Inr [], rsp))"
      from eq True obtain x rsp1 arg rsp2 where
        c1: "c = (Inr x, rsp1)" and
        p: "parseExpr lib rsp1 = (Inr arg, rsp2)" and
        r: "parseFnArgs lib rsp2 (args @ [arg]) = (Inr as, rsp')"
        by (auto simp: parseFnArgs.psimps[OF 3(1)] c_def split: prod.splits sum.splits if_splits)
      have l1: "remaining rsp1 \<le> remaining rsp"
        using c1 remaining_consume_le[of rsp 44] by (auto simp: c_def split: if_splits)
      have l2: "remaining rsp2 < remaining rsp1"
        using 3(2)[OF True c1[symmetric, unfolded c_def] refl] p by blast
      have l3: "remaining rsp' \<le> remaining rsp2"
        using 3(3)[OF True c1[symmetric, unfolded c_def] refl p[symmetric] refl] r by blast
      from l1 l2 l3 show ?thesis by simp
    qed
  qed
qed

termination parseExpr
proof (relation "measures [\<lambda>x. case x of Inl (lib, rsp) \<Rightarrow> remaining rsp
                                       | Inr (Inl (lib, rsp)) \<Rightarrow> remaining rsp
                                       | Inr (Inr (lib, rsp, args)) \<Rightarrow> remaining rsp,
                          \<lambda>x. case x of Inl _ \<Rightarrow> 1 | Inr (Inl _) \<Rightarrow> 0 | Inr (Inr _) \<Rightarrow> 2]", goal_cases)
  case 1
  show ?case by simp
next
  case (2 lib rsp)
  show ?case by simp
next
  case (3 lib rsp x y b x2)
  have "remaining y < remaining rsp"
    using remaining_consume_less[OF 3(1)[symmetric, unfolded 3(2)]] by (simp add: scanner_Ident_def scanner_EOF_def)
  moreover have "remaining (snd (consume y 40)) \<le> remaining y" by (rule remaining_consume_le)
  ultimately show ?case by simp
next
  case (4 lib rsp args x y b)
  have "remaining y \<le> remaining rsp"
    using 4(2) remaining_consume_le[of rsp 44] by (auto split: if_splits dest: sym)
  then show ?case by auto
next
  case (5 lib rsp args x y b xa ya ba)
  have "remaining y \<le> remaining rsp"
    using 5(2) remaining_consume_le[of rsp 44] by (auto split: if_splits dest: sym)
  moreover have "remaining ya < remaining y"
    using parse_dom_remaining(1)[OF 5(6)] 5(4)[symmetric] 5(5) by simp
  ultimately show ?case by simp
qed

declare parseExpr.simps [simp del] parseFn.simps [simp del] parseFnArgs.simps [simp del]

definition ParseRSExpr :: "('p, 'n) golib \<Rightarrow> string \<Rightarrow> error + RSExprAst" where
  "ParseRSExpr lib expr =
     (let rsp = nextToken \<lparr>scan = scanner_Scan lib expr, tok = 0, tokText = []\<rparr>
      in case parseExpr lib rsp of
           (Inl err, _) \<Rightarrow> Inl err
         | (Inr a, _) \<Rightarrow> Inr a)"

definition ParseRecordMatchExpr :: "('p, 'n) golib \<Rightarrow> string \<Rightarrow> error + ExprRecordSearcher" where
  "ParseRecordMatchExpr lib expr =
     (case ParseRSExpr lib expr of
        Inr a \<Rightarrow> Inr \<lparr>ast = a\<rparr>
      | Inl err \<Rightarrow> Inl err)"

section \<open>The harvest command\<close>

text \<open>
  Go's \<open>int\<close> is taken as 64 bits wide: addition wraps around, \<open>int_div\<close> is Go's
  \<open>/\<close>, which truncates towards zero and panics on a zero divisor (the caller checks
  for that).
\<close>

type_synonym go_int = "64 word"

definition int_div :: "go_int \<Rightarrow> go_int \<Rightarrow> go_int" where
  "int_div a b = word_of_int (sint a sdiv sint b)"

text \<open>The decimal digits of a number, and \<open>fmt.Sprintf\<close> with the verb \<open>%02d\<close>.\<close>

fun decimal :: "nat \<Rightarrow> string" where
  "decimal n =
     (if n < 10 then [''0123456789'' ! n]
      else decimal (n div 10) @ [''0123456789'' ! (n mod 10)])"

declare decimal.simps [simp del]

definition Sprintf_02d :: "go_int \<Rightarrow> string" where
  "Sprintf_02d i =
     (if sint i < 0 then CHR ''-'' # decimal (nat (- sint i))
      else if sint i < 10 then CHR ''0'' # decimal (nat (sint i))
      else decimal (nat (sint i)))"

text \<open>
  The fields of \<open>HarvestCommand\<close> that the methods below read or write. Its other fields
  only configure the harvester, which is not part of these sources.
\<close>

record HarvestCommand =
  dryRun :: bool
  compressDirs :: bool
  filenameFilter :: string
  filenameFilterAst :: "RSExprAst option"
  maxDirSize :: go_int
  dirPrefix :: string
  recordCount :: go_int
  lastDirId :: go_int

text \<open>
  What the command does to the file system and to other processes, in the order it
  does it. Messages written to the log and to standard error are not modelled.
\<close>

datatype effect =
    MkdirAll string
  | Create string
  | WriteString string string
  | Close string
  | Start "string list" string

text \<open>The ways a run ends early: a panic, or \<open>log.Fatal\<close>.\<close>

datatype abort =
    DivideByZero
  | CreateFailed string
  | Fatal error

definition dirName :: "HarvestCommand \<Rightarrow> go_int \<Rightarrow> string" where
  "dirName lc dirId = dirPrefix lc @ ''/'' @ Sprintf_02d dirId"

text \<open>
  \<open>saveRecordToDir\<close>: the three branches after the filter's evaluation are the source's
  \<open>if\<close>, \<open>else if\<close> and \<open>else\<close>; the last two only write to the log. A value
  returned without an error is never \<open>nil\<close> here.
\<close>

definition saveRecordToDir ::
  "('p, 'n) golib \<Rightarrow> HarvestCommand \<Rightarrow> go_int \<Rightarrow> RecordResult \<Rightarrow> abort option \<times> effect list" where
  "saveRecordToDir lib lc dirId res =
     (let dir = dirName lc dirId;
          resId = Identifier res;
          filename =
            (case filenameFilterAst lc of
               None \<Rightarrow> resId
             | Some a \<Rightarrow>
                 (case Evaluate a res of
                    Inr v \<Rightarrow> if Bool v then String v else resId
                  | Inl err \<Rightarrow> resId));
          escaped = EscapeIdForFilename lib filename;
          fileBaseName = (if escaped = [] then ''__empty__'' else escaped);
          outFile = filepath_Join lib dir (fileBaseName @ ''.xml'')
      in if os_Create_ok lib outFile
         then (None, [MkdirAll dir, Create outFile, WriteString outFile (Content res), Close outFile])
         else (Some (CreateFailed outFile), [MkdirAll dir]))"

definition closeDir :: "('p, 'n) golib \<Rightarrow> HarvestCommand \<Rightarrow> go_int \<Rightarrow> effect list" where
  "closeDir lib lc dirId =
     (if dryRun lc then []
      else
        (let dir = dirName lc dirId in
         if compressDirs lc then
           (let base = path_Base lib dir; parent = path_Dir lib dir
            in [Start [''zip'', ''-m'', ''-r'', base @ ''.zip'', base] parent])
         else []))"

definition saveRecord ::
  "('p, 'n) golib \<Rightarrow> HarvestCommand \<Rightarrow> RecordResult \<Rightarrow> abort option \<times> HarvestCommand \<times> effect list" where
  "saveRecord lib lc res =
     (let lc1 = lc\<lparr>recordCount := recordCount lc + 1\<rparr> in
      if maxDirSize lc1 = 0 then (Some DivideByZero, lc1, [])
      else
        (let dirId = int_div (recordCount lc1) (maxDirSize lc1) + 1;
             (lc2, closed) =
               (if dirId \<noteq> lastDirId lc1
                then (lc1\<lparr>lastDirId := dirId\<rparr>, closeDir lib lc1 (lastDirId lc1))
                else (lc1, []))
         in if \<not> dryRun lc2
            then (case saveRecordToDir lib lc2 dirId res of
                    (a, written) \<Rightarrow> (a, lc2, closed @ written))
            else (None, lc2, closed)))"

definition OnRecord ::
  "('p, 'n) golib \<Rightarrow> HarvestCommand \<Rightarrow> RecordResult \<Rightarrow> abort option \<times> HarvestCommand \<times> effect list" where
  "OnRecord lib lc rr = saveRecord lib lc rr"

text \<open>
  The harvester is not part of these sources. It is given by the records it hands to
  \<open>OnRecord\<close>, in that order: the records admitted by its guards.
\<close>

fun harvestWithHarvester ::
  "('p, 'n) golib \<Rightarrow> HarvestCommand \<Rightarrow> RecordResult list \<Rightarrow> abort option \<times> HarvestCommand \<times> effect list" where
  "harvestWithHarvester lib lc [] = (None, lc, [])"
| "harvestWithHarvester lib lc (rr # rrs) =
     (case OnRecord lib lc rr of
        (Some a, lc', fx) \<Rightarrow> (Some a, lc', fx)
      | (None, lc', fx) \<Rightarrow>
          (case harvestWithHarvester lib lc' rrs of
             (a, lc'', fx') \<Rightarrow> (a, lc'', fx @ fx')))"

text \<open>\<open>Run\<close>; \<open>now\<close> is the formatted time that becomes \<open>dirPrefix\<close>.\<close>

definition Run ::
  "('p, 'n) golib \<Rightarrow> HarvestCommand \<Rightarrow> string \<Rightarrow> RecordResult list \<Rightarrow> abort option \<times> HarvestCommand \<times> effect list" where
  "Run lib lc now admitted =
     (case (if filenameFilter lc \<noteq> []
            then (case ParseRSExpr lib (filenameFilter lc) of
                    Inl err \<Rightarrow> Inl err
                  | Inr a \<Rightarrow> Inr (lc\<lparr>filenameFilterAst := Some a\<rparr>))
            else Inr lc) of
        Inl err \<Rightarrow> (Some (Fatal err), lc, [])
      | Inr lc1 \<Rightarrow>
          (let lc2 = lc1\<lparr>lastDirId := 1, dirPrefix := now\<rparr> in
           case harvestWithHarvester lib lc2 admitted of
             (Some a, lc3, fx) \<Rightarrow> (Some a, lc3, fx)
           | (None, lc3, fx) \<Rightarrow> (None, lc3, fx @ closeDir lib lc3 (lastDirId lc3))))"


text \<open>
  Notions for the proof about unknown functions: the tokens a parser has still to
  consume (\<open>pending\<close>); a scanner output without an \<open>EOF\<close> token inside; a stretch
  of tokens whose identifiers all resolve in the registry; the unknown-function error;
  the error of a result; and what a stretch of consumed tokens looks like for a given
  outcome.
\<close>

definition pending :: "recordSearchParser \<Rightarrow> (int \<times> string) list" where
  "pending rsp = (if tok rsp = scanner_EOF then [] else (tok rsp, tokText rsp) # scan rsp)"

definition scan_wf :: "recordSearchParser \<Rightarrow> bool" where
  "scan_wf rsp = (\<forall>kt \<in> set (scan rsp). fst kt \<noteq> scanner_EOF)"

definition resolved :: "('p, 'n) golib \<Rightarrow> (int \<times> string) list \<Rightarrow> bool" where
  "resolved lib c = (\<forall>kt \<in> set c. fst kt = scanner_Ident \<longrightarrow> NATIVE_FUNCTIONS lib (snd kt) \<noteq> None)"

definition no_such :: "string \<Rightarrow> error" where
  "no_such n = Errorf (''No such function: '' @ n)"

definition err_of :: "error + 'a \<Rightarrow> error option" where
  "err_of res = (case res of Inl err \<Rightarrow> Some err | Inr _ \<Rightarrow> None)"

definition outcome :: "('p, 'n) golib \<Rightarrow> error option \<Rightarrow> (int \<times> string) list \<Rightarrow> bool" where
  "outcome lib eo c =
     (if \<exists>n. eo = Some (no_such n)
      then \<exists>c0 n. eo = Some (no_such n) \<and> c = c0 @ [(scanner_Ident, n)] \<and> resolved lib c0 \<and>
                  NATIVE_FUNCTIONS lib n = None
      else resolved lib c)"

definition advanced :: "('p, 'n) golib \<Rightarrow> recordSearchParser \<Rightarrow> recordSearchParser \<Rightarrow> bool" where
  "advanced lib rsp rsp' = (scan_wf rsp' \<and> (\<exists>c. pending rsp = c @ pending rsp' \<and> resolved lib c))"

definition step_ok ::
  "('p, 'n) golib \<Rightarrow> recordSearchParser \<Rightarrow> error option \<Rightarrow> recordSearchParser \<Rightarrow> bool" where
  "step_ok lib rsp eo rsp' = (scan_wf rsp' \<and> (\<exists>c. pending rsp = c @ pending rsp' \<and> outcome lib eo c))"



text \<open>
  A concrete instance of the library parameters and a concrete command, on which the
  model is evaluated in the examples below. Its scanner knows the token sequences of the
  few expressions the examples use.
\<close>

definition example_lib :: "(unit, unit) golib" where
  "example_lib =
     \<lparr>xmlpath_Compile = (\<lambda>s. Inr ()),
      xmlpath_Parse = (\<lambda>s. Inr ()),
      Path_String = (\<lambda>p n. ([], False)),
      strings_TrimSpace = (\<lambda>s. s),
      strings_Replace = (\<lambda>s old new. s),
      strconv_Unquote = (\<lambda>s. if 2 \<le> length s then Some (butlast (tl s)) else None),
      scanner_TokenString =
        (\<lambda>t. if t = - 1 then ''EOF'' else if t = - 2 then ''Ident''
              else if t = - 6 then ''String'' else if t = - 7 then ''RawString''
              else [CHR 0x22, char_of t, CHR 0x22]),
      scanner_Scan =
        (\<lambda>s. if s = ''urn'' then [(- 2, ''urn'')]
              else if s = ''urn()'' then [(- 2, ''urn''), (40, ''(''), (41, '')'')]
              else if s = ''urn urn'' then [(- 2, ''urn''), (- 2, ''urn'')]
              else if s = ''urn('' then [(- 2, ''urn''), (40, ''('')]
              else if s = ''foo()'' then [(- 2, ''foo''), (40, ''(''), (41, '')'')]
              else if s = ''concat(urn, foo)''
                then [(- 2, ''concat''), (40, ''(''), (- 2, ''urn''), (44, '',''),
                      (- 2, ''foo''), (41, '')'')]
              else []),
      EscapeIdForFilename = (\<lambda>s. s),
      path_Base = (\<lambda>p. p),
      path_Dir = (\<lambda>p. p),
      filepath_Join = (\<lambda>d f. d @ ''/'' @ f),
      os_Create_ok = (\<lambda>p. True)\<rparr>"

definition example_lc :: HarvestCommand where
  "example_lc =
     \<lparr>dryRun = False, compressDirs = False, filenameFilter = [], filenameFilterAst = None,
      maxDirSize = 2, dirPrefix = ''T'', recordCount = 0, lastDirId = 1\<rparr>"

section \<open>Properties of the expression evaluator\<close>

text \<open>The argument loop succeeds exactly when every argument does, with the values in order.\<close>

lemma evalArgs_Inr_iff:
  "evalArgs args rr = Inr vs \<longleftrightarrow>
     length vs = length args \<and> (\<forall>i<length args. Evaluate (args ! i) rr = Inr (vs ! i))"
proof (induction args arbitrary: vs)
  case Nil
  then show ?case by auto
next
  case (Cons a as)
  show ?case
  proof (cases vs)
    case Nil
    then show ?thesis by (auto split: sum.splits)
  next
    case (Cons v vs')
    then show ?thesis
      using Cons.IH[of vs'] by (auto simp: less_Suc_eq_0_disj split: sum.splits)
  qed
qed

text \<open>The argument loop fails with the error of the leftmost argument that fails.\<close>

lemma evalArgs_Inl_iff:
  "evalArgs args rr = Inl err \<longleftrightarrow>
     (\<exists>i<length args. Evaluate (args ! i) rr = Inl err \<and>
        (\<forall>j<i. \<exists>v. Evaluate (args ! j) rr = Inr v))"
proof (induction args)
  case Nil
  then show ?case by simp
next
  case (Cons a as)
  show ?case
  proof (cases "Evaluate a rr")
    case (Inl e)
    show ?thesis
    proof
      assume "evalArgs (a # as) rr = Inl err"
      with Inl have "e = err" by simp
      with Inl show "\<exists>i<length (a # as). Evaluate ((a # as) ! i) rr = Inl err \<and>
        (\<forall>j<i. \<exists>v. Evaluate ((a # as) ! j) rr = Inr v)"
        by (intro exI[of _ 0]) simp
    next
      assume "\<exists>i<length (a # as). Evaluate ((a # as) ! i) rr = Inl err \<and>
        (\<forall>j<i. \<exists>v. Evaluate ((a # as) ! j) rr = Inr v)"
      then obtain i where i: "i < length (a # as)" "Evaluate ((a # as) ! i) rr = Inl err"
        "\<forall>j<i. \<exists>v. Evaluate ((a # as) ! j) rr = Inr v" by blast
      have "i = 0"
      proof (rule ccontr)
        assume "i \<noteq> 0"
        then have "\<exists>v. Evaluate ((a # as) ! 0) rr = Inr v" using i(3) by blast
        with Inl show False by simp
      qed
      with i(2) Inl show "evalArgs (a # as) rr = Inl err" by simp
    qed
  next
    case (Inr v)
    have "evalArgs (a # as) rr = Inl err \<longleftrightarrow> evalArgs as rr = Inl err"
      using Inr by (simp split: sum.splits)
    also have "\<dots> \<longleftrightarrow> (\<exists>i<length as. Evaluate (as ! i) rr = Inl err \<and>
        (\<forall>j<i. \<exists>v. Evaluate (as ! j) rr = Inr v))" by (rule Cons.IH)
    also have "\<dots> \<longleftrightarrow> (\<exists>i<length (a # as). Evaluate ((a # as) ! i) rr = Inl err \<and>
        (\<forall>j<i. \<exists>v. Evaluate ((a # as) ! j) rr = Inr v))" (is "?L \<longleftrightarrow> ?R")
    proof
      assume ?L
      then obtain i where i: "i < length as" "Evaluate (as ! i) rr = Inl err"
        "\<forall>j<i. \<exists>v. Evaluate (as ! j) rr = Inr v" by blast
      have "\<forall>j<Suc i. \<exists>v. Evaluate ((a # as) ! j) rr = Inr v"
        using i(3) Inr by (auto simp: less_Suc_eq_0_disj)
      with i(1,2) show ?R by (intro exI[of _ "Suc i"]) simp
    next
      assume ?R
      then obtain i where i: "i < length (a # as)" "Evaluate ((a # as) ! i) rr = Inl err"
        "\<forall>j<i. \<exists>v. Evaluate ((a # as) ! j) rr = Inr v" by blast
      from i(2) Inr obtain k where k: "i = Suc k" by (cases i) auto
      have "\<forall>j<k. \<exists>v. Evaluate (as ! j) rr = Inr v"
      proof (intro allI impI)
        fix j assume "j < k"
        then have "Suc j < i" using k by simp
        with i(3) have "\<exists>v. Evaluate ((a # as) ! Suc j) rr = Inr v" by blast
        then show "\<exists>v. Evaluate (as ! j) rr = Inr v" by simp
      qed
      with i(1,2) k show ?L by (intro exI[of _ k]) simp
    qed
    finally show ?thesis .
  qed
qed

text \<open>
  Claim C4. A literal node evaluates to the value it holds, without an error. A function
  call evaluates its arguments from left to right: if an argument fails and all arguments
  before it succeeded, the call returns that argument's error whatever the native function
  is (the function is not invoked); if every argument succeeds, the result is the native
  function applied to the record and the argument values in order.
\<close>

theorem Evaluate_literal_and_call:
  "Evaluate (RSExprLiteral v) rr = Inr v \<and>
   (\<forall>i<length args.
      Evaluate (args ! i) rr = Inl err \<and> (\<forall>j<i. \<exists>w. Evaluate (args ! j) rr = Inr w)
      \<longrightarrow> (\<forall>fn. Evaluate (RSExprFnCall fn args) rr = Inl err)) \<and>
   (length vs = length args \<and> (\<forall>i<length args. Evaluate (args ! i) rr = Inr (vs ! i))
      \<longrightarrow> Evaluate (RSExprFnCall fn args) rr = fn rr vs)"
proof (intro conjI allI impI)
  show "Evaluate (RSExprLiteral v) rr = Inr v" by simp
next
  fix i fn'
  assume "i < length args"
    and "Evaluate (args ! i) rr = Inl err \<and> (\<forall>j<i. \<exists>w. Evaluate (args ! j) rr = Inr w)"
  then have "evalArgs args rr = Inl err"
    unfolding evalArgs_Inl_iff by blast
  then show "Evaluate (RSExprFnCall fn' args) rr = Inl err" by simp
next
  assume "length vs = length args \<and> (\<forall>i<length args. Evaluate (args ! i) rr = Inr (vs ! i))"
  then have "evalArgs args rr = Inr vs"
    unfolding evalArgs_Inr_iff by blast
  then show "Evaluate (RSExprFnCall fn args) rr = fn rr vs" by simp
qed

theorem Evaluate_literal_and_call_witness:
  "Evaluate (RSExprLiteral (RSString ''a'')) \<lparr>Identifier = ''id'', Content = ''c''\<rparr> = Inr (RSString ''a'') \<and>
   Evaluate (RSExprFnCall fn_concat
      [RSExprLiteral (RSString ''a''), RSExprFnCall fn_startsWith [], RSExprFnCall fn_contains []])
      \<lparr>Identifier = ''id'', Content = ''c''\<rparr>
     = Inl (Errorf ''startsWith() expects exactly 2 argument'') \<and>
   Evaluate (RSExprFnCall fn_concat [RSExprLiteral (RSString ''a''), RSExprLiteral (RSString ''b'')])
      \<lparr>Identifier = ''id'', Content = ''c''\<rparr>
     = Inr (RSString ''ab'')"
proof -
  let ?rr = "\<lparr>Identifier = ''id'', Content = ''c''\<rparr>"
  let ?bad = "[RSExprLiteral (RSString ''a''), RSExprFnCall fn_startsWith [], RSExprFnCall fn_contains []]"
  let ?good = "[RSExprLiteral (RSString ''a''), RSExprLiteral (RSString ''b'')]"
  note th = Evaluate_literal_and_call
  have lit: "Evaluate (RSExprLiteral (RSString ''a'')) ?rr = Inr (RSString ''a'')"
    using th[of "RSString ''a''" ?rr "[]" undefined "[]" undefined] by blast
  have "1 < length ?bad \<and> Evaluate (?bad ! 1) ?rr = Inl (Errorf ''startsWith() expects exactly 2 argument'')
      \<and> (\<forall>j<1. \<exists>w. Evaluate (?bad ! j) ?rr = Inr w)"
    by (simp add: fn_startsWith_def)
  then have bad: "Evaluate (RSExprFnCall fn_concat ?bad) ?rr = Inl (Errorf ''startsWith() expects exactly 2 argument'')"
    using th[of "RSString ''a''" ?rr ?bad "Errorf ''startsWith() expects exactly 2 argument''" "[]" undefined]
    by blast
  have "length [RSString ''a'', RSString ''b''] = length ?good \<and>
      (\<forall>i<length ?good. Evaluate (?good ! i) ?rr = Inr ([RSString ''a'', RSString ''b''] ! i))"
    by (simp add: less_Suc_eq_0_disj)
  then have "Evaluate (RSExprFnCall fn_concat ?good) ?rr = fn_concat ?rr [RSString ''a'', RSString ''b'']"
    using th[of "RSString ''a''" ?rr ?good undefined "[RSString ''a'', RSString ''b'']" fn_concat]
    by blast
  then have good: "Evaluate (RSExprFnCall fn_concat ?good) ?rr = Inr (RSString ''ab'')"
    by (simp add: fn_concat_def)
  from lit bad good show ?thesis by blast
qed

text \<open>
  Claim C9. If evaluating the searcher's AST on a record returns an error, \<open>SearchRecord\<close>
  returns no match, the empty string and that error.
\<close>

theorem SearchRecord_fails_closed:
  "Evaluate (ast ers) rr = Inl err \<Longrightarrow> SearchRecord ers rr = (False, [], Some err)"
  by (simp add: SearchRecord_def)

theorem SearchRecord_fails_closed_witness:
  "Evaluate (ast \<lparr>ast = RSExprFnCall fn_contains []\<rparr>) \<lparr>Identifier = ''id'', Content = ''c''\<rparr>
     = Inl (Errorf ''contains() expects exactly 2 argument'') \<and>
   SearchRecord \<lparr>ast = RSExprFnCall fn_contains []\<rparr> \<lparr>Identifier = ''id'', Content = ''c''\<rparr>
     = (False, [], Some (Errorf ''contains() expects exactly 2 argument''))"
proof -
  have h: "Evaluate (ast \<lparr>ast = RSExprFnCall fn_contains []\<rparr>) \<lparr>Identifier = ''id'', Content = ''c''\<rparr>
     = Inl (Errorf ''contains() expects exactly 2 argument'')"
    by (simp add: fn_contains_def)
  show ?thesis using h SearchRecord_fails_closed[OF h] by simp
qed

text \<open>
  Claim C2. Called with the wrong number of arguments, \<open>xp\<close>, \<open>startsWith\<close> and
  \<open>contains\<close> return an error whose message names them. The code departs from the claim
  at two functions: \<open>urn\<close> does not look at its arguments and returns the identifier
  for a non-empty argument list, and the error of \<open>replace\<close> names \<open>contains\<close>.
\<close>

theorem native_arity_errors:
  "fn_xp lib rr [] = Inl (Errorf ''xp() expects exactly 1 argument'') \<and>
   fn_startsWith rr [RSString ''a''] = Inl (Errorf ''startsWith() expects exactly 2 argument'') \<and>
   fn_contains rr [RSString ''a''] = Inl (Errorf ''contains() expects exactly 2 argument'') \<and>
   NATIVE_FUNCTIONS lib ''urn'' = Some fn_urn \<and>
   fn_urn rr [RSString ''x''] = Inr (RSString (Identifier rr)) \<and>
   NATIVE_FUNCTIONS lib ''replace'' = Some (fn_replace lib) \<and>
   fn_replace lib rr [RSString ''a''] = Inl (Errorf ''contains() expects exactly 3 argument'')"
  by (simp add: NATIVE_FUNCTIONS_def fn_urn_def fn_replace_def fn_xp_def fn_startsWith_def
      fn_contains_def)

section \<open>Properties of the harvest command\<close>

lemma Sprintf_02d_small:
  "Sprintf_02d 0 = ''00''" "Sprintf_02d 1 = ''01''" "Sprintf_02d 2 = ''02''" "Sprintf_02d 3 = ''03''"
  by (simp_all add: Sprintf_02d_def decimal.simps)

lemma int_div_small:
  "int_div 1 2 = 0" "int_div 2 2 = 1" "int_div 3 2 = 1" "int_div 4 2 = 2"
  by (simp_all add: int_div_def signed_divide_int_def)

lemma closeDir_fields:
  "dryRun lc' = dryRun lc \<Longrightarrow> compressDirs lc' = compressDirs lc \<Longrightarrow> dirPrefix lc' = dirPrefix lc
   \<Longrightarrow> closeDir lib lc' d = closeDir lib lc d"
  by (simp add: closeDir_def dirName_def)

lemma saveRecordToDir_fields:
  "filenameFilterAst lc' = filenameFilterAst lc \<Longrightarrow> dirPrefix lc' = dirPrefix lc
   \<Longrightarrow> saveRecordToDir lib lc' d res = saveRecordToDir lib lc d res"
  by (simp add: saveRecordToDir_def dirName_def)

lemma saveRecordToDir_MkdirAll:
  "MkdirAll (dirName lc d) \<in> set (snd (saveRecordToDir lib lc d res))"
  by (simp add: saveRecordToDir_def Let_def)

lemma saveRecord_unfold:
  assumes "maxDirSize lc \<noteq> 0"
  shows "saveRecord lib lc res =
     (let target = int_div (recordCount lc + 1) (maxDirSize lc) + 1;
          closed = (if target \<noteq> lastDirId lc then closeDir lib lc (lastDirId lc) else [])
      in (if dryRun lc then None else fst (saveRecordToDir lib lc target res),
          lc\<lparr>recordCount := recordCount lc + 1, lastDirId := target\<rparr>,
          closed @ (if dryRun lc then [] else snd (saveRecordToDir lib lc target res))))"
proof -
  let ?lc1 = "lc\<lparr>recordCount := recordCount lc + 1\<rparr>"
  let ?t = "int_div (recordCount lc + 1) (maxDirSize lc) + 1"
  have c: "closeDir lib ?lc1 d = closeDir lib lc d" for d
    by (rule closeDir_fields) simp_all
  have s1: "saveRecordToDir lib ?lc1 d res = saveRecordToDir lib lc d res" for d
    by (rule saveRecordToDir_fields) simp_all
  have s2: "saveRecordToDir lib (?lc1\<lparr>lastDirId := t\<rparr>) d res = saveRecordToDir lib lc d res" for d t
    by (rule saveRecordToDir_fields) simp_all
  have e: "lc\<lparr>recordCount := recordCount lc + 1, lastDirId := lastDirId lc\<rparr> = ?lc1"
    by simp
  show ?thesis
    using assms
    by (auto simp: saveRecord_def Let_def c s1 s2 split: prod.splits)
qed

text \<open>
  Claim C3, amended. For every admitted record and a \<open>maxDirSize\<close> other than zero,
  \<open>saveRecord\<close> increments \<open>recordCount\<close>, computes the target directory id as
  \<open>(recordCount / maxDirSize) + 1\<close> on the incremented count with Go's integer division,
  calls \<open>closeDir\<close> on \<open>lastDirId\<close> first if the target differs from it, sets
  \<open>lastDirId\<close> to the target, and then, unless the run is a dry run, writes the record
  into the directory of the target id. In a dry run nothing is written.
\<close>

theorem saveRecord_partition:
  assumes "maxDirSize lc \<noteq> 0"
  shows "let target = int_div (recordCount lc + 1) (maxDirSize lc) + 1;
             closed = (if target \<noteq> lastDirId lc then closeDir lib lc (lastDirId lc) else []);
             lc' = fst (snd (saveRecord lib lc res));
             fx = snd (snd (saveRecord lib lc res))
         in recordCount lc' = recordCount lc + 1 \<and>
            lastDirId lc' = target \<and>
            fx = closed @ (if dryRun lc then [] else snd (saveRecordToDir lib lc target res)) \<and>
            (\<not> dryRun lc \<longrightarrow> MkdirAll (dirName lc target) \<in> set fx)"
  by (simp add: saveRecord_unfold[OF assms] Let_def saveRecordToDir_MkdirAll)

theorem saveRecord_partition_witness:
  "maxDirSize example_lc \<noteq> 0 \<and>
   recordCount (fst (snd (saveRecord example_lib example_lc \<lparr>Identifier = ''a'', Content = ''A''\<rparr>))) = 1 \<and>
   lastDirId (fst (snd (saveRecord example_lib example_lc \<lparr>Identifier = ''a'', Content = ''A''\<rparr>))) = 1 \<and>
   snd (snd (saveRecord example_lib example_lc \<lparr>Identifier = ''a'', Content = ''A''\<rparr>)) =
     [MkdirAll ''T/01'', Create ''T/01/a.xml'', WriteString ''T/01/a.xml'' ''A'', Close ''T/01/a.xml'']"
proof -
  have h: "maxDirSize example_lc \<noteq> 0" by (simp add: example_lc_def)
  show ?thesis
    using h saveRecord_partition[OF h, of example_lib "\<lparr>Identifier = ''a'', Content = ''A''\<rparr>"]
    by (simp add: Let_def example_lc_def example_lib_def int_div_small saveRecordToDir_def
        dirName_def Sprintf_02d_small)
qed

text \<open>
  Claim C3 as stated says that the record is then written into the target directory. In a
  dry run \<open>saveRecord\<close> returns normally and writes nothing.
\<close>

theorem saveRecord_dry_run_counterexample:
  "snd (snd (saveRecord example_lib (example_lc\<lparr>dryRun := True\<rparr>)
      \<lparr>Identifier = ''a'', Content = ''A''\<rparr>)) = [] \<and>
   fst (saveRecord example_lib (example_lc\<lparr>dryRun := True\<rparr>)
      \<lparr>Identifier = ''a'', Content = ''A''\<rparr>) = None"
  by (simp add: saveRecord_def Let_def example_lc_def example_lib_def int_div_small closeDir_def)

lemma saveRecord_dryRun:
  "dryRun (fst (snd (saveRecord lib lc res))) = dryRun lc"
  by (simp add: saveRecord_def Let_def split: prod.splits)

lemma saveRecord_recordCount:
  "recordCount (fst (snd (saveRecord lib lc res))) = recordCount lc + 1"
  by (simp add: saveRecord_def Let_def split: prod.splits)

lemma saveRecord_dry_effects:
  "dryRun lc \<Longrightarrow> snd (snd (saveRecord lib lc res)) = []"
  by (simp add: saveRecord_def Let_def closeDir_def split: prod.splits)

lemma harvest_dry:
  "dryRun lc \<Longrightarrow>
     snd (snd (harvestWithHarvester lib lc rrs)) = [] \<and>
     dryRun (fst (snd (harvestWithHarvester lib lc rrs))) \<and>
     (fst (harvestWithHarvester lib lc rrs) = None \<longrightarrow>
        recordCount (fst (snd (harvestWithHarvester lib lc rrs))) = recordCount lc + of_nat (length rrs))"
proof (induction rrs arbitrary: lc)
  case Nil
  then show ?case by simp
next
  case (Cons rr rrs)
  obtain a lc' fx where s: "saveRecord lib lc rr = (a, lc', fx)" by (cases "saveRecord lib lc rr")
  have d: "dryRun lc'" using saveRecord_dryRun[of lib lc rr] s Cons.prems by simp
  have f: "fx = []" using saveRecord_dry_effects[OF Cons.prems, of lib rr] s by simp
  have c: "recordCount lc' = recordCount lc + 1" using saveRecord_recordCount[of lib lc rr] s by simp
  show ?case
  proof (cases a)
    case (Some x)
    with s d f show ?thesis by (simp add: OnRecord_def)
  next
    case None
    with s f c Cons.IH[OF d] show ?thesis
      by (simp add: OnRecord_def split: prod.splits)
  qed
qed

text \<open>
  Claim C7. In a dry run, processing an admitted record has no effect on the file system,
  \<open>closeDir\<close> launches no compression, and \<open>recordCount\<close> grows by one for each
  admitted record, as it does when the run is not a dry run. A whole dry run has no
  effects either.
\<close>

theorem dry_run_suppresses_writes:
  assumes "dryRun lc"
  shows "snd (snd (saveRecord lib lc res)) = [] \<and>
         closeDir lib lc d = [] \<and>
         recordCount (fst (snd (saveRecord lib lc res))) = recordCount lc + 1 \<and>
         recordCount (fst (snd (saveRecord lib (lc\<lparr>dryRun := False\<rparr>) res))) = recordCount lc + 1 \<and>
         snd (snd (harvestWithHarvester lib lc rrs)) = [] \<and>
         (fst (harvestWithHarvester lib lc rrs) = None \<longrightarrow>
            recordCount (fst (snd (harvestWithHarvester lib lc rrs))) = recordCount lc + of_nat (length rrs)) \<and>
         snd (snd (Run lib lc now rrs)) = []"
proof -
  have run: "snd (snd (Run lib lc now rrs)) = []"
  proof (cases "filenameFilter lc \<noteq> [] \<and> (\<exists>e. ParseRSExpr lib (filenameFilter lc) = Inl e)")
    case True
    then show ?thesis by (auto simp: Run_def)
  next
    case False
    define pre where "pre = (if filenameFilter lc \<noteq> []
            then (case ParseRSExpr lib (filenameFilter lc) of
                    Inl err \<Rightarrow> Inl err
                  | Inr a \<Rightarrow> Inr (lc\<lparr>filenameFilterAst := Some a\<rparr>))
            else Inr lc)"
    have "\<exists>lc1. pre = Inr lc1 \<and> dryRun lc1"
    proof (cases "filenameFilter lc = []")
      case True
      then show ?thesis using assms by (simp add: pre_def)
    next
      case ne: False
      with False obtain b where "ParseRSExpr lib (filenameFilter lc) = Inr b"
        by (cases "ParseRSExpr lib (filenameFilter lc)") auto
      with ne assms show ?thesis by (simp add: pre_def)
    qed
    then obtain lc1 where l: "pre = Inr lc1" and d1: "dryRun lc1" by blast
    let ?lc2 = "lc1\<lparr>lastDirId := 1, dirPrefix := now\<rparr>"
    have d2: "dryRun ?lc2" using d1 by simp
    from harvest_dry[OF d2, of lib rrs] show ?thesis
      unfolding Run_def pre_def[symmetric] l
      by (auto simp: Let_def closeDir_def split: prod.splits option.splits)
  qed
  from assms harvest_dry[OF assms, of lib rrs] run show ?thesis
    by (simp add: saveRecord_dry_effects saveRecord_recordCount closeDir_def)
qed

theorem dry_run_suppresses_writes_witness:
  "dryRun (example_lc\<lparr>dryRun := True, compressDirs := True\<rparr>) \<and>
   harvestWithHarvester example_lib (example_lc\<lparr>dryRun := True, compressDirs := True\<rparr>)
     [\<lparr>Identifier = ''a'', Content = ''A''\<rparr>, \<lparr>Identifier = ''b'', Content = ''B''\<rparr>] =
     (None, example_lc\<lparr>dryRun := True, compressDirs := True, recordCount := 2, lastDirId := 2\<rparr>, [])"
proof -
  let ?lc = "example_lc\<lparr>dryRun := True, compressDirs := True\<rparr>"
  let ?rs = "[\<lparr>Identifier = ''a'', Content = ''A''\<rparr>, \<lparr>Identifier = ''b'', Content = ''B''\<rparr>]"
  have h: "dryRun ?lc" by simp
  have e: "snd (snd (harvestWithHarvester example_lib ?lc ?rs)) = []"
    using dry_run_suppresses_writes[OF h, of example_lib undefined undefined ?rs undefined] by blast
  have r: "fst (harvestWithHarvester example_lib ?lc ?rs) = None \<and>
           fst (snd (harvestWithHarvester example_lib ?lc ?rs)) = ?lc\<lparr>recordCount := 2, lastDirId := 2\<rparr>"
    by (simp add: OnRecord_def saveRecord_def Let_def example_lc_def int_div_small closeDir_def)
  from h e r show ?thesis by (metis prod.collapse)
qed

lemma saveRecordToDir_ok:
  "\<forall>p. os_Create_ok lib p \<Longrightarrow> fst (saveRecordToDir lib lc d res) = None"
  by (simp add: saveRecordToDir_def Let_def)

text \<open>
  Claim C1, amended. With \<open>maxDirSize = 2\<close>, starting from \<open>recordCount = 0\<close> and
  \<open>lastDirId = 1\<close>, not in a dry run and with every file creation succeeding, four
  admitted records are saved as follows: the 1st into the directory with id 1, the 2nd and
  the 3rd into the directory with id 2 (after directory 1 is closed), the 4th into the
  directory with id 3 (after directory 2 is closed). These ids are the values of
  \<open>(recordCount / maxDirSize) + 1\<close> on the incremented counts 1, 2, 3 and 4.
\<close>

theorem rotation_maxDirSize_2:
  assumes "maxDirSize lc = 2" and "recordCount lc = 0" and "lastDirId lc = 1"
    and "\<not> dryRun lc" and "\<forall>p. os_Create_ok lib p"
  shows "harvestWithHarvester lib lc [r1, r2, r3, r4] =
           (None, lc\<lparr>recordCount := 4, lastDirId := 3\<rparr>,
            snd (saveRecordToDir lib lc 1 r1) @
            closeDir lib lc 1 @
            snd (saveRecordToDir lib lc 2 r2) @
            snd (saveRecordToDir lib lc 2 r3) @
            closeDir lib lc 2 @
            snd (saveRecordToDir lib lc 3 r4)) \<and>
         int_div 1 2 + 1 = 1 \<and> int_div 2 2 + 1 = 2 \<and> int_div 3 2 + 1 = 2 \<and> int_div 4 2 + 1 = 3"
proof -
  let ?lc1 = "lc\<lparr>recordCount := 1, lastDirId := 1\<rparr>"
  let ?lc2 = "lc\<lparr>recordCount := 2, lastDirId := 2\<rparr>"
  let ?lc3 = "lc\<lparr>recordCount := 3, lastDirId := 2\<rparr>"
  let ?lc4 = "lc\<lparr>recordCount := 4, lastDirId := 3\<rparr>"
  have c: "closeDir lib (lc\<lparr>recordCount := n, lastDirId := l\<rparr>) d = closeDir lib lc d" for n l d
    by (rule closeDir_fields) simp_all
  have w: "saveRecordToDir lib (lc\<lparr>recordCount := n, lastDirId := l\<rparr>) d r = saveRecordToDir lib lc d r"
    for n l d r
    by (rule saveRecordToDir_fields) simp_all
  note ok = saveRecordToDir_ok[OF assms(5)]
  have s1: "saveRecord lib lc r1 = (None, ?lc1, snd (saveRecordToDir lib lc 1 r1))"
    using assms(1-4) by (simp add: saveRecord_unfold Let_def int_div_small ok)
  have s2: "saveRecord lib ?lc1 r2 = (None, ?lc2, closeDir lib lc 1 @ snd (saveRecordToDir lib lc 2 r2))"
    using assms(1-4) by (simp add: saveRecord_unfold Let_def int_div_small ok c w)
  have s3: "saveRecord lib ?lc2 r3 = (None, ?lc3, snd (saveRecordToDir lib lc 2 r3))"
    using assms(1-4) by (simp add: saveRecord_unfold Let_def int_div_small ok c w)
  have s4: "saveRecord lib ?lc3 r4 = (None, ?lc4, closeDir lib lc 2 @ snd (saveRecordToDir lib lc 3 r4))"
    using assms(1-4) by (simp add: saveRecord_unfold Let_def int_div_small ok c w)
  show ?thesis
    by (simp add: OnRecord_def s1 s2 s3 s4 int_div_small)
qed

theorem rotation_maxDirSize_2_witness:
  "maxDirSize example_lc = 2 \<and> recordCount example_lc = 0 \<and> lastDirId example_lc = 1 \<and>
   \<not> dryRun example_lc \<and> (\<forall>p. os_Create_ok example_lib p) \<and>
   harvestWithHarvester example_lib example_lc
     [\<lparr>Identifier = ''a'', Content = ''A''\<rparr>, \<lparr>Identifier = ''b'', Content = ''B''\<rparr>,
      \<lparr>Identifier = ''c'', Content = ''C''\<rparr>, \<lparr>Identifier = ''d'', Content = ''D''\<rparr>] =
     (None, example_lc\<lparr>recordCount := 4, lastDirId := 3\<rparr>,
      [MkdirAll ''T/01'', Create ''T/01/a.xml'', WriteString ''T/01/a.xml'' ''A'', Close ''T/01/a.xml'',
       MkdirAll ''T/02'', Create ''T/02/b.xml'', WriteString ''T/02/b.xml'' ''B'', Close ''T/02/b.xml'',
       MkdirAll ''T/02'', Create ''T/02/c.xml'', WriteString ''T/02/c.xml'' ''C'', Close ''T/02/c.xml'',
       MkdirAll ''T/03'', Create ''T/03/d.xml'', WriteString ''T/03/d.xml'' ''D'', Close ''T/03/d.xml''])"
proof -
  have h: "maxDirSize example_lc = 2" "recordCount example_lc = 0" "lastDirId example_lc = 1"
    "\<not> dryRun example_lc" "\<forall>p. os_Create_ok example_lib p"
    by (simp_all add: example_lc_def example_lib_def)
  have d: "dirName example_lc 1 = ''T/01''" "dirName example_lc 2 = ''T/02''" "dirName example_lc 3 = ''T/03''"
    by (simp_all add: dirName_def Sprintf_02d_small example_lc_def)
  have f: "filenameFilterAst example_lc = None" by (simp add: example_lc_def)
  have l: "EscapeIdForFilename example_lib = (\<lambda>s. s)" "filepath_Join example_lib = (\<lambda>d f. d @ ''/'' @ f)"
    by (simp_all add: example_lib_def)
  have c: "closeDir example_lib example_lc n = []" for n
    by (simp add: closeDir_def example_lc_def)
  show ?thesis
    using h rotation_maxDirSize_2[OF h, of "\<lparr>Identifier = ''a'', Content = ''A''\<rparr>"
        "\<lparr>Identifier = ''b'', Content = ''B''\<rparr>" "\<lparr>Identifier = ''c'', Content = ''C''\<rparr>"
        "\<lparr>Identifier = ''d'', Content = ''D''\<rparr>"]
    by (simp add: saveRecordToDir_def Let_def d f l c)
qed

text \<open>
  Claim C1 as stated puts the 2nd record into directory 1 and the 4th into directory 2.
  On four records the code writes the 2nd into directory 2 and the 4th into directory 3.
\<close>

theorem rotation_maxDirSize_2_counterexample:
  "snd (snd (harvestWithHarvester example_lib example_lc
     [\<lparr>Identifier = ''a'', Content = ''A''\<rparr>, \<lparr>Identifier = ''b'', Content = ''B''\<rparr>,
      \<lparr>Identifier = ''c'', Content = ''C''\<rparr>, \<lparr>Identifier = ''d'', Content = ''D''\<rparr>])) =
     [MkdirAll ''T/01'', Create ''T/01/a.xml'', WriteString ''T/01/a.xml'' ''A'', Close ''T/01/a.xml'',
      MkdirAll ''T/02'', Create ''T/02/b.xml'', WriteString ''T/02/b.xml'' ''B'', Close ''T/02/b.xml'',
      MkdirAll ''T/02'', Create ''T/02/c.xml'', WriteString ''T/02/c.xml'' ''C'', Close ''T/02/c.xml'',
      MkdirAll ''T/03'', Create ''T/03/d.xml'', WriteString ''T/03/d.xml'' ''D'', Close ''T/03/d.xml''] \<and>
   dirName example_lc 1 = ''T/01'' \<and> dirName example_lc 2 = ''T/02'' \<and> dirName example_lc 3 = ''T/03'' \<and>
   Create ''T/01/b.xml'' \<notin> set (snd (snd (harvestWithHarvester example_lib example_lc
     [\<lparr>Identifier = ''a'', Content = ''A''\<rparr>, \<lparr>Identifier = ''b'', Content = ''B''\<rparr>,
      \<lparr>Identifier = ''c'', Content = ''C''\<rparr>, \<lparr>Identifier = ''d'', Content = ''D''\<rparr>]))) \<and>
   Create ''T/02/d.xml'' \<notin> set (snd (snd (harvestWithHarvester example_lib example_lc
     [\<lparr>Identifier = ''a'', Content = ''A''\<rparr>, \<lparr>Identifier = ''b'', Content = ''B''\<rparr>,
      \<lparr>Identifier = ''c'', Content = ''C''\<rparr>, \<lparr>Identifier = ''d'', Content = ''D''\<rparr>])))"
  by (simp add: example_lib_def example_lc_def OnRecord_def saveRecord_def saveRecordToDir_def closeDir_def
    dirName_def int_div_small Let_def Sprintf_02d_small)

text \<open>
  Claim C5. \<open>saveRecordToDir\<close> derives the file name as follows. If a filename filter is
  configured, its evaluation on the record succeeds and the result is true as a boolean,
  the base name is the result's string form. In every other case (no filter, an evaluation
  error, a result that is false as a boolean) the base name is the record's identifier,
  and the call behaves exactly as if no filter were configured, so the filter's failure
  aborts nothing. The base name is escaped, an empty escaped name becomes \<open>__empty__\<close>,
  and the file created and written is the escaped name with \<open>.xml\<close> appended, in the
  directory of the given id. The call only aborts when the file cannot be created.
\<close>

theorem filename_derivation:
  "let base = (\<lambda>name. if EscapeIdForFilename lib name = [] then ''__empty__''
                        else EscapeIdForFilename lib name);
       outFile = (\<lambda>name. filepath_Join lib (dirName lc dirId) (base name @ ''.xml''));
       writes = (\<lambda>name.
         if os_Create_ok lib (outFile name)
         then (None, [MkdirAll (dirName lc dirId), Create (outFile name),
                      WriteString (outFile name) (Content res), Close (outFile name)])
         else (Some (CreateFailed (outFile name)), [MkdirAll (dirName lc dirId)]))
   in (\<forall>a v. filenameFilterAst lc = Some a \<and> Evaluate a res = Inr v \<and> Bool v
         \<longrightarrow> saveRecordToDir lib lc dirId res = writes (String v)) \<and>
      (filenameFilterAst lc = None \<or>
       (\<exists>a err. filenameFilterAst lc = Some a \<and> Evaluate a res = Inl err) \<or>
       (\<exists>a v. filenameFilterAst lc = Some a \<and> Evaluate a res = Inr v \<and> \<not> Bool v)
         \<longrightarrow> saveRecordToDir lib lc dirId res = writes (Identifier res) \<and>
             saveRecordToDir lib lc dirId res = saveRecordToDir lib (lc\<lparr>filenameFilterAst := None\<rparr>) dirId res)"
proof -
  define base where "base = (\<lambda>name. if EscapeIdForFilename lib name = [] then ''__empty__''
                        else EscapeIdForFilename lib name)"
  define outFile where "outFile = (\<lambda>name. filepath_Join lib (dirName lc dirId) (base name @ ''.xml''))"
  define writes where "writes = (\<lambda>name.
         if os_Create_ok lib (outFile name)
         then (None, [MkdirAll (dirName lc dirId), Create (outFile name),
                      WriteString (outFile name) (Content res), Close (outFile name)])
         else (Some (CreateFailed (outFile name)), [MkdirAll (dirName lc dirId)]))"
  have none: "saveRecordToDir lib (lc\<lparr>filenameFilterAst := None\<rparr>) dirId res = writes (Identifier res)"
    by (simp add: saveRecordToDir_def Let_def dirName_def writes_def outFile_def base_def)
  have t: "saveRecordToDir lib lc dirId res = writes (String v)"
    if "filenameFilterAst lc = Some a" "Evaluate a res = Inr v" "Bool v" for a v
    using that by (simp add: saveRecordToDir_def Let_def writes_def outFile_def base_def)
  have f1: "saveRecordToDir lib lc dirId res = writes (Identifier res)"
    if "filenameFilterAst lc = None"
    using that by (simp add: saveRecordToDir_def Let_def writes_def outFile_def base_def)
  have f2: "saveRecordToDir lib lc dirId res = writes (Identifier res)"
    if "filenameFilterAst lc = Some a" "Evaluate a res = Inl err" for a err
    using that by (simp add: saveRecordToDir_def Let_def writes_def outFile_def base_def)
  have f3: "saveRecordToDir lib lc dirId res = writes (Identifier res)"
    if "filenameFilterAst lc = Some a" "Evaluate a res = Inr v" "\<not> Bool v" for a v
    using that by (simp add: saveRecordToDir_def Let_def writes_def outFile_def base_def)
  have "(\<forall>a v. filenameFilterAst lc = Some a \<and> Evaluate a res = Inr v \<and> Bool v
         \<longrightarrow> saveRecordToDir lib lc dirId res = writes (String v)) \<and>
      (filenameFilterAst lc = None \<or>
       (\<exists>a err. filenameFilterAst lc = Some a \<and> Evaluate a res = Inl err) \<or>
       (\<exists>a v. filenameFilterAst lc = Some a \<and> Evaluate a res = Inr v \<and> \<not> Bool v)
         \<longrightarrow> saveRecordToDir lib lc dirId res = writes (Identifier res) \<and>
             saveRecordToDir lib lc dirId res = saveRecordToDir lib (lc\<lparr>filenameFilterAst := None\<rparr>) dirId res)"
    using t f1 f2 f3 none by metis
  then show ?thesis
    unfolding Let_def writes_def outFile_def base_def .
qed

theorem filename_derivation_witness:
  "saveRecordToDir example_lib (example_lc\<lparr>filenameFilterAst := Some (RSExprLiteral (RSString ''n''))\<rparr>) 1
     \<lparr>Identifier = ''a'', Content = ''A''\<rparr> =
     (None, [MkdirAll ''T/01'', Create ''T/01/n.xml'', WriteString ''T/01/n.xml'' ''A'', Close ''T/01/n.xml'']) \<and>
   saveRecordToDir example_lib (example_lc\<lparr>filenameFilterAst := Some (RSExprFnCall fn_contains [])\<rparr>) 1
     \<lparr>Identifier = [], Content = ''A''\<rparr> =
     (None, [MkdirAll ''T/01'', Create ''T/01/__empty__.xml'', WriteString ''T/01/__empty__.xml'' ''A'',
             Close ''T/01/__empty__.xml''])"
proof -
  let ?lit = "RSExprLiteral (RSString ''n'')"
  let ?bad = "RSExprFnCall fn_contains []"
  let ?ra = "\<lparr>Identifier = ''a'', Content = ''A''\<rparr>"
  let ?re = "\<lparr>Identifier = [], Content = ''A''\<rparr>"
  have d: "dirName (example_lc\<lparr>filenameFilterAst := f\<rparr>) 1 = ''T/01''" for f
    by (simp add: dirName_def Sprintf_02d_small example_lc_def)
  have l: "EscapeIdForFilename example_lib = (\<lambda>s. s)" "filepath_Join example_lib = (\<lambda>d f. d @ ''/'' @ f)"
    "os_Create_ok example_lib = (\<lambda>p. True)"
    by (simp_all add: example_lib_def)
  have h1: "filenameFilterAst (example_lc\<lparr>filenameFilterAst := Some ?lit\<rparr>) = Some ?lit \<and>
            Evaluate ?lit ?ra = Inr (RSString ''n'') \<and> Bool (RSString ''n'')"
    by simp
  have h2: "filenameFilterAst (example_lc\<lparr>filenameFilterAst := Some ?bad\<rparr>) = Some ?bad \<and>
            Evaluate ?bad ?re = Inl (Errorf ''contains() expects exactly 2 argument'')"
    by (simp add: fn_contains_def)
  have a: "saveRecordToDir example_lib (example_lc\<lparr>filenameFilterAst := Some ?lit\<rparr>) 1 ?ra =
     (None, [MkdirAll ''T/01'', Create ''T/01/n.xml'', WriteString ''T/01/n.xml'' ''A'', Close ''T/01/n.xml''])"
    using h1 filename_derivation[of example_lib "example_lc\<lparr>filenameFilterAst := Some ?lit\<rparr>" 1 ?ra]
    by (simp add: Let_def d l)
  have b: "saveRecordToDir example_lib (example_lc\<lparr>filenameFilterAst := Some ?bad\<rparr>) 1 ?re =
     (None, [MkdirAll ''T/01'', Create ''T/01/__empty__.xml'', WriteString ''T/01/__empty__.xml'' ''A'',
             Close ''T/01/__empty__.xml''])"
    using h2 filename_derivation[of example_lib "example_lc\<lparr>filenameFilterAst := Some ?bad\<rparr>" 1 ?re]
    by (simp add: Let_def d l)
  from a b show ?thesis by simp
qed

subsection \<open>Directory ids over a run\<close>

text \<open>Signed readings of the counter and of the target id, where nothing overflows.\<close>

lemma sint_succ:
  fixes a :: go_int
  assumes "sint a + 1 < 2 ^ 63"
  shows "sint (a + 1) = sint a + 1"
proof -
  have "- (2 ^ 63) \<le> sint a" using sint_ge[of a] by simp
  then have "signed_take_bit 63 (sint a + 1) = sint a + 1"
    using assms by (intro signed_take_bit_int_eq_self) simp_all
  then show ?thesis by (simp add: sint_word_add)
qed

lemma int_div_le_dividend: "0 \<le> (a::int) \<Longrightarrow> a div b \<le> a"
  by (cases "a = 0") (simp_all add: int_div_le_self)

lemma sint_int_div:
  assumes "0 \<le> sint a" and "0 < sint m"
  shows "sint (int_div a m) = sint a div sint m"
proof -
  have e: "sint a sdiv sint m = sint a div sint m"
    using assms by (cases "sint a = 0") (simp_all add: signed_divide_int_def)
  have "sint a div sint m \<le> sint a"
    using assms by (simp add: int_div_le_dividend)
  moreover have "sint a < 2 ^ 63" using sint_lt[of a] by simp
  moreover have "0 \<le> sint a div sint m" using assms by (simp add: pos_imp_zdiv_nonneg_iff)
  ultimately have "signed_take_bit 63 (sint a div sint m) = sint a div sint m"
    by (intro signed_take_bit_int_eq_self) simp_all
  then show ?thesis by (simp add: int_div_def e sint_sbintrunc')
qed

lemma sint_target:
  assumes "0 \<le> sint a" and "sint a + 1 < 2 ^ 63" and "0 < sint m"
  shows "sint (int_div a m + 1) = sint a div sint m + 1"
proof -
  have "sint a div sint m \<le> sint a"
    using assms by (simp add: int_div_le_dividend)
  then have "sint (int_div a m) + 1 < 2 ^ 63"
    using assms by (simp add: sint_int_div)
  then show ?thesis using assms by (simp add: sint_succ sint_int_div)
qed

text \<open>Delivering two batches of records one after the other.\<close>

lemma harvest_append:
  "harvestWithHarvester lib lc (xs @ ys) =
     (case harvestWithHarvester lib lc xs of
        (Some a, lc', fx) \<Rightarrow> (Some a, lc', fx)
      | (None, lc', fx) \<Rightarrow>
          (case harvestWithHarvester lib lc' ys of
             (a, lc'', fx') \<Rightarrow> (a, lc'', fx @ fx')))"
proof (induction xs arbitrary: lc)
  case Nil
  then show ?case by (simp split: prod.splits)
next
  case (Cons x xs)
  then show ?case by (simp split: prod.splits option.splits)
qed

text \<open>
  The invariant of a run with a positive \<open>maxDirSize\<close>: \<open>lastDirId\<close> is the directory
  id of the current record count, which has grown by the number of records processed.
\<close>

lemma harvest_state:
  assumes "0 < sint (maxDirSize lc)" and "0 \<le> sint (recordCount lc)"
    and "sint (recordCount lc) + int (length rrs) + 1 < 2 ^ 63"
    and "lastDirId lc = int_div (recordCount lc) (maxDirSize lc) + 1"
  shows "\<exists>j\<le>length rrs.
           sint (recordCount (fst (snd (harvestWithHarvester lib lc rrs)))) = sint (recordCount lc) + int j \<and>
           (fst (harvestWithHarvester lib lc rrs) = None \<longrightarrow> j = length rrs) \<and>
           maxDirSize (fst (snd (harvestWithHarvester lib lc rrs))) = maxDirSize lc \<and>
           dirPrefix (fst (snd (harvestWithHarvester lib lc rrs))) = dirPrefix lc \<and>
           lastDirId (fst (snd (harvestWithHarvester lib lc rrs))) =
             int_div (recordCount (fst (snd (harvestWithHarvester lib lc rrs)))) (maxDirSize lc) + 1"
  using assms
proof (induction rrs arbitrary: lc)
  case Nil
  then show ?case by simp
next
  case (Cons rr rrs)
  have nz: "maxDirSize lc \<noteq> 0" using Cons.prems(1) by auto
  define t where "t = int_div (recordCount lc + 1) (maxDirSize lc) + 1"
  define lc' where "lc' = lc\<lparr>recordCount := recordCount lc + 1, lastDirId := t\<rparr>"
  obtain a fx where s: "saveRecord lib lc rr = (a, lc', fx)"
    by (simp add: saveRecord_unfold[OF nz] Let_def lc'_def t_def)
  have rc: "sint (recordCount lc') = sint (recordCount lc) + 1"
    using Cons.prems(2,3) by (simp add: lc'_def sint_succ)
  have m: "maxDirSize lc' = maxDirSize lc" "dirPrefix lc' = dirPrefix lc"
    "lastDirId lc' = int_div (recordCount lc') (maxDirSize lc) + 1"
    by (simp_all add: lc'_def t_def)
  show ?case
  proof (cases a)
    case (Some x)
    have h: "harvestWithHarvester lib lc (rr # rrs) = (Some x, lc', fx)"
      using s Some by (simp add: OnRecord_def)
    show ?thesis
      unfolding h fst_conv snd_conv
    proof (rule exI[of _ "Suc 0"], intro conjI impI)
      show "Suc 0 \<le> length (rr # rrs)" by simp
      show "sint (recordCount lc') = sint (recordCount lc) + int (Suc 0)"
        using rc by simp
      show "Suc 0 = length (rr # rrs)" if "Some x = None"
        using that by simp
      show "maxDirSize lc' = maxDirSize lc" by (rule m(1))
      show "dirPrefix lc' = dirPrefix lc" by (rule m(2))
      show "lastDirId lc' = int_div (recordCount lc') (maxDirSize lc) + 1" by (rule m(3))
    qed
  next
    case None
    have p1: "0 < sint (maxDirSize lc')" using Cons.prems(1) by (simp only: m(1))
    have p2: "0 \<le> sint (recordCount lc')" using Cons.prems(2) by (simp only: rc)
    have "int (length (rr # rrs)) = int (length rrs) + 1" by simp
    then have p3: "sint (recordCount lc') + int (length rrs) + 1 < 2 ^ 63"
      using Cons.prems(3) unfolding rc by linarith
    have p4: "lastDirId lc' = int_div (recordCount lc') (maxDirSize lc') + 1"
      by (simp only: m(1) m(3))
    note p = p1 p2 p3 p4
    let ?r = "harvestWithHarvester lib lc' rrs"
    from Cons.IH[OF p] obtain j where jall: "j \<le> length rrs \<and>
      sint (recordCount (fst (snd ?r))) = sint (recordCount lc') + int j \<and>
      (fst ?r = None \<longrightarrow> j = length rrs) \<and>
      maxDirSize (fst (snd ?r)) = maxDirSize lc' \<and>
      dirPrefix (fst (snd ?r)) = dirPrefix lc' \<and>
      lastDirId (fst (snd ?r)) = int_div (recordCount (fst (snd ?r))) (maxDirSize lc') + 1" ..
    note j = jall[THEN conjunct1] jall[THEN conjunct2, THEN conjunct1]
      jall[THEN conjunct2, THEN conjunct2, THEN conjunct1]
      jall[THEN conjunct2, THEN conjunct2, THEN conjunct2, THEN conjunct1]
      jall[THEN conjunct2, THEN conjunct2, THEN conjunct2, THEN conjunct2, THEN conjunct1]
      jall[THEN conjunct2, THEN conjunct2, THEN conjunct2, THEN conjunct2, THEN conjunct2]
    have h: "harvestWithHarvester lib lc (rr # rrs) =
        (case harvestWithHarvester lib lc' rrs of (a, lc'', fx') \<Rightarrow> (a, lc'', fx @ fx'))"
      using s None by (simp add: OnRecord_def)
    have st: "fst (snd (harvestWithHarvester lib lc (rr # rrs))) = fst (snd (harvestWithHarvester lib lc' rrs))"
      and ab: "fst (harvestWithHarvester lib lc (rr # rrs)) = fst (harvestWithHarvester lib lc' rrs)"
      unfolding h by (simp_all split: prod.splits)
    show ?thesis
      unfolding st ab
    proof (rule exI[of _ "Suc j"], intro conjI impI)
      show "Suc j \<le> length (rr # rrs)" using j(1) by simp
      show "sint (recordCount (fst (snd (harvestWithHarvester lib lc' rrs)))) =
          sint (recordCount lc) + int (Suc j)"
        using j(2) rc by simp
      show "Suc j = length (rr # rrs)" if "fst (harvestWithHarvester lib lc' rrs) = None"
        using that j(3) by simp
      show "maxDirSize (fst (snd (harvestWithHarvester lib lc' rrs))) = maxDirSize lc"
        using j(4) m(1) by simp
      show "dirPrefix (fst (snd (harvestWithHarvester lib lc' rrs))) = dirPrefix lc"
        using j(5) m(2) by simp
      show "lastDirId (fst (snd (harvestWithHarvester lib lc' rrs))) =
          int_div (recordCount (fst (snd (harvestWithHarvester lib lc' rrs)))) (maxDirSize lc) + 1"
        using j(6) m(1) by simp
    qed
  qed
qed

lemma harvest_lastDirId_sint:
  assumes "0 < sint (maxDirSize lc)" and "0 \<le> sint (recordCount lc)"
    and "sint (recordCount lc) + int (length rrs) + 1 < 2 ^ 63"
    and "lastDirId lc = int_div (recordCount lc) (maxDirSize lc) + 1"
  shows "\<exists>j\<le>length rrs.
           sint (lastDirId (fst (snd (harvestWithHarvester lib lc rrs)))) =
             (sint (recordCount lc) + int j) div sint (maxDirSize lc) + 1"
proof -
  let ?lc' = "fst (snd (harvestWithHarvester lib lc rrs))"
  from harvest_state[OF assms, of lib] obtain j where jall: "j \<le> length rrs \<and>
      sint (recordCount ?lc') = sint (recordCount lc) + int j \<and>
      (fst (harvestWithHarvester lib lc rrs) = None \<longrightarrow> j = length rrs) \<and>
      maxDirSize ?lc' = maxDirSize lc \<and>
      dirPrefix ?lc' = dirPrefix lc \<and>
      lastDirId ?lc' = int_div (recordCount ?lc') (maxDirSize lc) + 1" ..
  have j: "j \<le> length rrs" and c: "sint (recordCount ?lc') = sint (recordCount lc) + int j"
    and l: "lastDirId ?lc' = int_div (recordCount ?lc') (maxDirSize lc) + 1"
    using jall by blast+
  have "0 \<le> sint (recordCount ?lc')" using c assms(2) by simp
  moreover have "sint (recordCount ?lc') + 1 < 2 ^ 63" using c j assms(3) by simp
  ultimately have "sint (int_div (recordCount ?lc') (maxDirSize lc) + 1) =
      sint (recordCount ?lc') div sint (maxDirSize lc) + 1"
    using assms(1) by (rule sint_target)
  then have "sint (lastDirId ?lc') = (sint (recordCount lc) + int j) div sint (maxDirSize lc) + 1"
    by (simp only: l c)
  with j show ?thesis by blast
qed

lemma harvest_prefix_mono:
  assumes "0 < sint (maxDirSize lc)" and "0 \<le> sint (recordCount lc)"
    and "sint (recordCount lc) + int (length (xs @ ys)) + 1 < 2 ^ 63"
    and "lastDirId lc = int_div (recordCount lc) (maxDirSize lc) + 1"
  shows "sint (lastDirId (fst (snd (harvestWithHarvester lib lc xs))))
           \<le> sint (lastDirId (fst (snd (harvestWithHarvester lib lc (xs @ ys)))))"
proof -
  obtain a lc' fx where r: "harvestWithHarvester lib lc xs = (a, lc', fx)"
    by (cases "harvestWithHarvester lib lc xs")
  show ?thesis
  proof (cases a)
    case (Some x)
    then show ?thesis by (simp add: harvest_append r)
  next
    case None
    have x3: "sint (recordCount lc) + int (length xs) + 1 < 2 ^ 63"
      using assms(3) by simp
    from harvest_state[OF assms(1,2) x3 assms(4), of lib] obtain j where jall: "j \<le> length xs \<and>
      sint (recordCount lc') = sint (recordCount lc) + int j \<and>
      (a = None \<longrightarrow> j = length xs) \<and>
      maxDirSize lc' = maxDirSize lc \<and>
      dirPrefix lc' = dirPrefix lc \<and>
      lastDirId lc' = int_div (recordCount lc') (maxDirSize lc) + 1"
      unfolding r fst_conv snd_conv ..
    have c: "sint (recordCount lc') = sint (recordCount lc) + int (length xs)"
      and m: "maxDirSize lc' = maxDirSize lc"
      and l: "lastDirId lc' = int_div (recordCount lc') (maxDirSize lc') + 1"
      using jall None by auto
    have q1: "0 < sint (maxDirSize lc')" using assms(1) m by simp
    have q2: "0 \<le> sint (recordCount lc')" using assms(2) c by simp
    have q3: "sint (recordCount lc') + int (length ys) + 1 < 2 ^ 63" using assms(3) c by simp
    have q3': "sint (recordCount lc') + int (length ([]::RecordResult list)) + 1 < 2 ^ 63" using q3 by simp
    from harvest_lastDirId_sint[OF q1 q2 q3 l, of lib] obtain k where
      k: "sint (lastDirId (fst (snd (harvestWithHarvester lib lc' ys)))) =
             (sint (recordCount lc') + int k) div sint (maxDirSize lc') + 1" by blast
    from harvest_lastDirId_sint[OF q1 q2 q3' l, of lib] have
      z: "sint (lastDirId lc') = sint (recordCount lc') div sint (maxDirSize lc') + 1" by simp
    have e: "fst (snd (harvestWithHarvester lib lc (xs @ ys))) = fst (snd (harvestWithHarvester lib lc' ys))"
      by (simp add: harvest_append r None split: prod.splits)
    have "sint (recordCount lc') div sint (maxDirSize lc')
        \<le> (sint (recordCount lc') + int k) div sint (maxDirSize lc')"
      using q1 by (intro zdiv_mono1) simp_all
    then show ?thesis
      unfolding e r fst_conv snd_conv k z by simp
  qed
qed

lemma harvest_preserves:
  assumes "0 < sint (maxDirSize lc)" and "0 \<le> sint (recordCount lc)"
    and "sint (recordCount lc) + int (length rrs) + 1 < 2 ^ 63"
    and "lastDirId lc = int_div (recordCount lc) (maxDirSize lc) + 1"
  shows "maxDirSize (fst (snd (harvestWithHarvester lib lc rrs))) = maxDirSize lc"
    and "dirPrefix (fst (snd (harvestWithHarvester lib lc rrs))) = dirPrefix lc"
proof -
  let ?lc' = "fst (snd (harvestWithHarvester lib lc rrs))"
  from harvest_state[OF assms, of lib] obtain j where jall: "j \<le> length rrs \<and>
      sint (recordCount ?lc') = sint (recordCount lc) + int j \<and>
      (fst (harvestWithHarvester lib lc rrs) = None \<longrightarrow> j = length rrs) \<and>
      maxDirSize ?lc' = maxDirSize lc \<and>
      dirPrefix ?lc' = dirPrefix lc \<and>
      lastDirId ?lc' = int_div (recordCount ?lc') (maxDirSize lc) + 1" ..
  show "maxDirSize ?lc' = maxDirSize lc" using jall by (elim conjE)
  show "dirPrefix ?lc' = dirPrefix lc" using jall by (elim conjE)
qed

lemma saveRecord_MkdirAll:
  assumes "maxDirSize lc \<noteq> 0"
    and "MkdirAll d \<in> set (snd (snd (saveRecord lib lc res)))"
  shows "d = dirName lc (lastDirId (fst (snd (saveRecord lib lc res))))"
  using assms(2)
  by (auto simp: saveRecord_unfold[OF assms(1)] Let_def closeDir_def saveRecordToDir_def
      split: if_splits)

lemma dirName_dirPrefix: "dirPrefix lc' = dirPrefix lc \<Longrightarrow> dirName lc' d = dirName lc d"
  by (simp add: dirName_def)

lemma int_div_zero: "int_div 0 m + 1 = 1"
  by (simp add: int_div_def)

text \<open>
  Claim C8, amended. Take a run with a positive \<open>maxDirSize\<close>, \<open>recordCount\<close> starting
  at 0 and fewer than \<open>2^63 - 1\<close> admitted records. \<open>Run\<close> sets \<open>lastDirId\<close> to 1
  before the harvest. Writing \<open>st k\<close> for the command after the first \<open>k\<close> admitted
  records: \<open>lastDirId\<close> never decreases along the run; when a record changes it (the
  rotation that closes the old id), every later value is strictly larger than the closed
  id, so a closed id is never the target again; and every directory a record is written
  into is the one named by \<open>lastDirId\<close> after that record, the single current target.
\<close>

theorem directory_ids_never_decrease:
  assumes "0 < sint (maxDirSize lc1)" and "recordCount lc1 = 0"
    and "int (length rrs) + 1 < 2 ^ 63"
  shows "let lc = lc1\<lparr>lastDirId := 1, dirPrefix := now\<rparr>;
             st = (\<lambda>k. fst (snd (harvestWithHarvester lib lc (take k rrs))))
         in lastDirId (st 0) = 1 \<and>
            (\<forall>i j. i \<le> j \<longrightarrow> sint (lastDirId (st i)) \<le> sint (lastDirId (st j))) \<and>
            (\<forall>i j. i < j \<and> lastDirId (st (Suc i)) \<noteq> lastDirId (st i)
               \<longrightarrow> sint (lastDirId (st i)) < sint (lastDirId (st j))) \<and>
            (\<forall>i<length rrs. fst (harvestWithHarvester lib lc (take i rrs)) = None \<longrightarrow>
               st (Suc i) = fst (snd (saveRecord lib (st i) (rrs ! i))) \<and>
               (\<forall>d. MkdirAll d \<in> set (snd (snd (saveRecord lib (st i) (rrs ! i))))
                  \<longrightarrow> d = dirName lc (lastDirId (st (Suc i))))) \<and>
            (filenameFilter lc1 = [] \<longrightarrow>
               Run lib lc1 now rrs =
                 (case harvestWithHarvester lib lc rrs of
                    (Some a, lc3, fx) \<Rightarrow> (Some a, lc3, fx)
                  | (None, lc3, fx) \<Rightarrow> (None, lc3, fx @ closeDir lib lc3 (lastDirId lc3))))"
proof -
  let ?lc = "lc1\<lparr>lastDirId := 1, dirPrefix := now\<rparr>"
  let ?st = "\<lambda>k. fst (snd (harvestWithHarvester lib ?lc (take k rrs)))"
  have i1: "0 < sint (maxDirSize ?lc)" using assms(1) by simp
  have i2: "0 \<le> sint (recordCount ?lc)" using assms(2) by simp
  have rc0: "sint (recordCount ?lc) = 0" using assms(2) by simp
  have i4: "lastDirId ?lc = int_div (recordCount ?lc) (maxDirSize ?lc) + 1"
    using assms(2) by (simp add: int_div_zero)
  have i3: "sint (recordCount ?lc) + int (length xs) + 1 < 2 ^ 63" if "length xs \<le> length rrs" for xs :: "RecordResult list"
    using that assms(3) rc0 by simp
  have c0: "lastDirId (?st 0) = 1" by simp
  have mono: "sint (lastDirId (?st i)) \<le> sint (lastDirId (?st j))" if "i \<le> j" for i j
  proof -
    have t: "take j rrs = take i rrs @ drop i (take j rrs)"
      using that by (metis append_take_drop_id min.absorb1 take_take)
    have "length (take i rrs @ drop i (take j rrs)) \<le> length rrs"
      unfolding t[symmetric] by simp
    from harvest_prefix_mono[OF i1 i2 i3[OF this] i4, of lib]
    show ?thesis unfolding t[symmetric] .
  qed
  have strict: "sint (lastDirId (?st i)) < sint (lastDirId (?st j))"
    if "i < j" "lastDirId (?st (Suc i)) \<noteq> lastDirId (?st i)" for i j
  proof -
    have "sint (lastDirId (?st i)) \<le> sint (lastDirId (?st (Suc i)))" by (rule mono) simp
    moreover have "sint (lastDirId (?st (Suc i))) \<noteq> sint (lastDirId (?st i))"
      using that(2) by (auto dest: signed_word_eqI)
    moreover have "sint (lastDirId (?st (Suc i))) \<le> sint (lastDirId (?st j))"
      using that(1) by (intro mono) simp
    ultimately show ?thesis by linarith
  qed
  have step: "?st (Suc i) = fst (snd (saveRecord lib (?st i) (rrs ! i))) \<and>
      (\<forall>d. MkdirAll d \<in> set (snd (snd (saveRecord lib (?st i) (rrs ! i))))
          \<longrightarrow> d = dirName ?lc (lastDirId (?st (Suc i))))"
    if a1: "i < length rrs" and a2: "fst (harvestWithHarvester lib ?lc (take i rrs)) = None" for i
  proof -
    have t: "take (Suc i) rrs = take i rrs @ [rrs ! i]"
      using a1 by (rule take_Suc_conv_app_nth)
    obtain a s fx where r: "harvestWithHarvester lib ?lc (take i rrs) = (a, s, fx)"
      by (cases "harvestWithHarvester lib ?lc (take i rrs)")
    have an: "a = None" using a2 r by simp
    have si: "?st i = s" by (simp add: r)
    have "?st (Suc i) = fst (snd (harvestWithHarvester lib ?lc (take i rrs @ [rrs ! i])))"
      by (simp only: t)
    also have "\<dots> = fst (snd (saveRecord lib s (rrs ! i)))"
      by (simp add: harvest_append r an OnRecord_def split: prod.splits option.splits)
    finally have e: "?st (Suc i) = fst (snd (saveRecord lib s (rrs ! i)))" .
    have "length (take i rrs) \<le> length rrs" by simp
    note hp = harvest_preserves[OF i1 i2 i3[OF this] i4, of lib]
    have m: "maxDirSize s = maxDirSize ?lc" and p: "dirPrefix s = dirPrefix ?lc"
      using hp unfolding si by simp_all
    have nz: "maxDirSize s \<noteq> 0" using i1 m by auto
    have "d = dirName ?lc (lastDirId (?st (Suc i)))"
      if "MkdirAll d \<in> set (snd (snd (saveRecord lib s (rrs ! i))))" for d
      unfolding e dirName_dirPrefix[OF p, symmetric]
      by (rule saveRecord_MkdirAll[OF nz that])
    then have "\<forall>d. MkdirAll d \<in> set (snd (snd (saveRecord lib s (rrs ! i))))
          \<longrightarrow> d = dirName ?lc (lastDirId (?st (Suc i)))" by (intro allI impI)
    with e show ?thesis unfolding si by (rule conjI)
  qed
  have run: "Run lib lc1 now rrs =
                 (case harvestWithHarvester lib ?lc rrs of
                    (Some a, lc3, fx) \<Rightarrow> (Some a, lc3, fx)
                  | (None, lc3, fx) \<Rightarrow> (None, lc3, fx @ closeDir lib lc3 (lastDirId lc3)))"
    if "filenameFilter lc1 = []"
    using that by (simp add: Run_def)
  show ?thesis
    unfolding Let_def
  proof (intro conjI allI impI)
    show "lastDirId (?st 0) = 1" by (rule c0)
    show "sint (lastDirId (?st i)) \<le> sint (lastDirId (?st j))" if "i \<le> j" for i j
      using that by (rule mono)
    show "sint (lastDirId (?st i)) < sint (lastDirId (?st j))"
      if "i < j \<and> lastDirId (?st (Suc i)) \<noteq> lastDirId (?st i)" for i j
      using that strict by (elim conjE)
    show "?st (Suc i) = fst (snd (saveRecord lib (?st i) (rrs ! i)))"
      if "i < length rrs" "fst (harvestWithHarvester lib ?lc (take i rrs)) = None" for i
      using step[OF that] by (rule conjunct1)
    show "d = dirName ?lc (lastDirId (?st (Suc i)))"
      if "i < length rrs" "fst (harvestWithHarvester lib ?lc (take i rrs)) = None"
        "MkdirAll d \<in> set (snd (snd (saveRecord lib (?st i) (rrs ! i))))" for i d
      using step[OF that(1,2)] that(3) by (elim conjE allE[of _ d] impE)
    show "Run lib lc1 now rrs =
                 (case harvestWithHarvester lib ?lc rrs of
                    (Some a, lc3, fx) \<Rightarrow> (Some a, lc3, fx)
                  | (None, lc3, fx) \<Rightarrow> (None, lc3, fx @ closeDir lib lc3 (lastDirId lc3)))"
      if "filenameFilter lc1 = []"
      using that by (rule run)
  qed
qed

theorem directory_ids_never_decrease_witness:
  "0 < sint (maxDirSize example_lc) \<and> recordCount example_lc = 0 \<and>
   int (length [\<lparr>Identifier = ''a'', Content = ''A''\<rparr>, \<lparr>Identifier = ''b'', Content = ''B''\<rparr>,
                \<lparr>Identifier = ''c'', Content = ''C''\<rparr>]) + 1 < 2 ^ 63 \<and>
   (1::nat) \<le> 3 \<and>
   sint (lastDirId (fst (snd (harvestWithHarvester example_lib (example_lc\<lparr>lastDirId := 1, dirPrefix := ''T''\<rparr>)
     (take 1 [\<lparr>Identifier = ''a'', Content = ''A''\<rparr>, \<lparr>Identifier = ''b'', Content = ''B''\<rparr>,
              \<lparr>Identifier = ''c'', Content = ''C''\<rparr>]))))) \<le>
   sint (lastDirId (fst (snd (harvestWithHarvester example_lib (example_lc\<lparr>lastDirId := 1, dirPrefix := ''T''\<rparr>)
     (take 3 [\<lparr>Identifier = ''a'', Content = ''A''\<rparr>, \<lparr>Identifier = ''b'', Content = ''B''\<rparr>,
              \<lparr>Identifier = ''c'', Content = ''C''\<rparr>]))))) \<and>
   lastDirId (fst (snd (harvestWithHarvester example_lib (example_lc\<lparr>lastDirId := 1, dirPrefix := ''T''\<rparr>)
     [\<lparr>Identifier = ''a'', Content = ''A''\<rparr>, \<lparr>Identifier = ''b'', Content = ''B''\<rparr>,
      \<lparr>Identifier = ''c'', Content = ''C''\<rparr>]))) = 2"
proof -
  let ?rs = "[\<lparr>Identifier = ''a'', Content = ''A''\<rparr>, \<lparr>Identifier = ''b'', Content = ''B''\<rparr>,
              \<lparr>Identifier = ''c'', Content = ''C''\<rparr>]"
  have h: "0 < sint (maxDirSize example_lc)" "recordCount example_lc = 0" "int (length ?rs) + 1 < 2 ^ 63"
    by (simp_all add: example_lc_def)
  note th = directory_ids_never_decrease[OF h, where lib = example_lib and now = "''T''", unfolded Let_def]
  have le: "(1::nat) \<le> 3" by simp
  have m: "sint (lastDirId (fst (snd (harvestWithHarvester example_lib
          (example_lc\<lparr>lastDirId := 1, dirPrefix := ''T''\<rparr>) (take 1 ?rs))))) \<le>
      sint (lastDirId (fst (snd (harvestWithHarvester example_lib
          (example_lc\<lparr>lastDirId := 1, dirPrefix := ''T''\<rparr>) (take 3 ?rs)))))"
    using th[THEN conjunct2, THEN conjunct1, rule_format, OF le] .
  have v: "lastDirId (fst (snd (harvestWithHarvester example_lib
          (example_lc\<lparr>lastDirId := 1, dirPrefix := ''T''\<rparr>) ?rs))) = 2"
    by (simp add: example_lib_def example_lc_def OnRecord_def saveRecord_def saveRecordToDir_def
        closeDir_def int_div_small Let_def)
  from h le m v show ?thesis by (intro conjI)
qed

text \<open>
  Claim C8 as stated fails for a negative \<open>maxDirSize\<close>, a value the flag accepts: with
  \<open>maxDirSize = -1\<close> the first record is written into directory 0, below the initial
  \<open>lastDirId = 1\<close>, and the second into directory \<open>-1\<close>.
\<close>

theorem directory_ids_decrease_counterexample:
  "lastDirId (fst (snd (harvestWithHarvester example_lib (example_lc\<lparr>maxDirSize := - 1\<rparr>)
      [\<lparr>Identifier = ''a'', Content = ''A''\<rparr>]))) = 0 \<and>
   lastDirId (fst (snd (harvestWithHarvester example_lib (example_lc\<lparr>maxDirSize := - 1\<rparr>)
      [\<lparr>Identifier = ''a'', Content = ''A''\<rparr>, \<lparr>Identifier = ''b'', Content = ''B''\<rparr>]))) = - 1 \<and>
   sint (- 1 :: go_int) < sint (0 :: go_int) \<and> sint (0 :: go_int) < sint (1 :: go_int) \<and>
   snd (snd (harvestWithHarvester example_lib (example_lc\<lparr>maxDirSize := - 1\<rparr>)
      [\<lparr>Identifier = ''a'', Content = ''A''\<rparr>, \<lparr>Identifier = ''b'', Content = ''B''\<rparr>])) =
     [MkdirAll ''T/00'', Create ''T/00/a.xml'', WriteString ''T/00/a.xml'' ''A'', Close ''T/00/a.xml'',
      MkdirAll ''T/-1'', Create ''T/-1/b.xml'', WriteString ''T/-1/b.xml'' ''B'', Close ''T/-1/b.xml'']"
proof -
  have d: "int_div 1 (- 1) = - 1" "int_div 2 (- 1) = - 2"
    by (simp_all add: int_div_def signed_divide_int_def)
  have f: "Sprintf_02d (- 1) = ''-1''"
    by (simp add: Sprintf_02d_def decimal.simps)
  show ?thesis
    by (simp add: example_lib_def example_lc_def OnRecord_def saveRecord_def saveRecordToDir_def
        closeDir_def d f Let_def dirName_def Sprintf_02d_small)
qed

section \<open>Properties of the parser\<close>

subsection \<open>Tokens after the first expression\<close>






lemma consume_Inr_tok: "consume rsp t = (Inr x, rsp') \<Longrightarrow> tok rsp = t \<and> rsp' = nextToken rsp \<and> x = tokText rsp"
  by (auto simp: consume_def split: if_splits)







subsection \<open>Unknown functions and bare identifiers\<close>

lemma remaining_pending: "remaining rsp = length (pending rsp)"
  by (simp add: remaining_def pending_def)

lemma resolved_append [simp]: "resolved lib (c1 @ c2) \<longleftrightarrow> resolved lib c1 \<and> resolved lib c2"
  by (auto simp: resolved_def)

lemma resolved_Nil [simp]: "resolved lib []"
  by (simp add: resolved_def)

lemma resolved_single: "k \<noteq> scanner_Ident \<Longrightarrow> resolved lib [(k, t)]"
  by (simp add: resolved_def)

lemma outcome_None [simp]: "outcome lib None c \<longleftrightarrow> resolved lib c"
  by (simp add: outcome_def)

lemma outcome_other: "\<forall>n. err \<noteq> no_such n \<Longrightarrow> outcome lib (Some err) c \<longleftrightarrow> resolved lib c"
  by (simp add: outcome_def)

lemma outcome_prepend:
  "resolved lib c1 \<Longrightarrow> outcome lib eo c2 \<Longrightarrow> outcome lib eo (c1 @ c2)"
  by (auto simp: outcome_def split: if_splits)

lemma etoken_not_no_such: "etoken a b \<noteq> no_such n"
  by (simp add: no_such_def)

lemma ErrSyntax_not_no_such: "ErrSyntax \<noteq> no_such n"
  by (simp add: no_such_def)

lemma Expected_not_no_such: "Errorf (''Expected string but got '' @ x) \<noteq> no_such n"
  by (simp add: no_such_def)

lemma nextToken_pending:
  assumes "scan_wf rsp" and "tok rsp \<noteq> scanner_EOF"
  shows "pending rsp = (tok rsp, tokText rsp) # pending (nextToken rsp) \<and> scan_wf (nextToken rsp)"
proof (cases "scan rsp")
  case Nil
  with assms show ?thesis by (simp add: pending_def nextToken_def scan_wf_def)
next
  case (Cons kt rest)
  with assms show ?thesis
    by (cases kt) (auto simp: pending_def nextToken_def scan_wf_def)
qed

text \<open>Consuming a token of a class other than \<open>Ident\<close>.\<close>

lemma consume_outcome:
  assumes "scan_wf rsp" and "consume rsp t = (res, rsp')" and "t \<noteq> scanner_Ident" and "t \<noteq> scanner_EOF"
  shows "scan_wf rsp' \<and> (\<exists>c. pending rsp = c @ pending rsp' \<and> resolved lib c) \<and>
         (\<forall>n. err_of res \<noteq> Some (no_such n))"
proof (cases "tok rsp = t")
  case True
  with assms(2) have r: "rsp' = nextToken rsp" "res = Inr (tokText rsp)" by (auto simp: consume_def)
  from True assms(4) have ne: "tok rsp \<noteq> scanner_EOF" by simp
  from nextToken_pending[OF assms(1) ne] r True assms(3)
  have "scan_wf rsp'" "pending rsp = [(t, tokText rsp)] @ pending rsp'" "resolved lib [(t, tokText rsp)]"
    by (simp_all add: resolved_single)
  then show ?thesis using r by (auto simp: err_of_def)
next
  case False
  with assms(2) have r: "rsp' = rsp" "res = Inl (etoken t (tok rsp))" by (auto simp: consume_def)
  have "pending rsp = [] @ pending rsp" by simp
  with r assms(1) show ?thesis
    by (auto simp: err_of_def etoken_not_no_such intro: exI[of _ "[]"])
qed

lemma parseAtom_outcome:
  assumes "scan_wf rsp" and "parseAtom lib rsp = (res, rsp')"
  shows "scan_wf rsp' \<and> (\<exists>c. pending rsp = c @ pending rsp' \<and> resolved lib c) \<and>
         (\<forall>n. err_of res \<noteq> Some (no_such n))"
proof (cases "tok rsp = scanner_String \<or> tok rsp = scanner_RawString")
  case False
  with assms(2) have r: "rsp' = rsp"
    "res = Inl (Errorf (''Expected string but got '' @ (scanner_TokenString lib (tok rsp) @ [CHR 0x0A])))"
    by (auto simp: parseAtom_def readString_def)
  have "pending rsp = [] @ pending rsp" by simp
  moreover have "\<forall>n. err_of res \<noteq> Some (no_such n)"
    unfolding r err_of_def by (simp add: no_such_def)
  ultimately show ?thesis using r(1) assms(1) by (metis resolved_Nil)
next
  case True
  then have ne: "tok rsp \<noteq> scanner_EOF" and ni: "tok rsp \<noteq> scanner_Ident"
    by (auto simp: scanner_String_def scanner_RawString_def scanner_EOF_def scanner_Ident_def)
  show ?thesis
  proof (cases "strconv_Unquote lib (tokText rsp)")
    case None
    with True assms(2) have r: "rsp' = rsp" "res = Inl ErrSyntax"
      by (auto simp: parseAtom_def readString_def)
    have "pending rsp = [] @ pending rsp" by simp
    with r assms(1) show ?thesis
      by (auto simp: err_of_def ErrSyntax_not_no_such intro: exI[of _ "[]"])
  next
    case (Some s)
    with True assms(2) have r: "rsp' = nextToken rsp" "res = Inr (RSExprLiteral (RSString s))"
      by (auto simp: parseAtom_def readString_def consume_def)
    from nextToken_pending[OF assms(1) ne] r ni
    have "scan_wf rsp'" "pending rsp = [(tok rsp, tokText rsp)] @ pending rsp'"
      "resolved lib [(tok rsp, tokText rsp)]"
      by (simp_all add: resolved_single)
    then show ?thesis using r by (auto simp: err_of_def)
  qed
qed

lemma advanced_refl: "scan_wf rsp \<Longrightarrow> advanced lib rsp rsp"
  by (auto simp: advanced_def intro: exI[of _ "[]"])

lemma advanced_trans: "advanced lib rsp rsp1 \<Longrightarrow> advanced lib rsp1 rsp2 \<Longrightarrow> advanced lib rsp rsp2"
  unfolding advanced_def by (metis append_assoc resolved_append)

lemma advanced_step: "advanced lib rsp rsp1 \<Longrightarrow> step_ok lib rsp1 eo rsp2 \<Longrightarrow> step_ok lib rsp eo rsp2"
  unfolding advanced_def step_ok_def by (metis append_assoc outcome_prepend)

lemma step_ok_None: "step_ok lib rsp None rsp' \<longleftrightarrow> advanced lib rsp rsp'"
  by (simp add: step_ok_def advanced_def)

lemma step_ok_other:
  "\<forall>n. err \<noteq> no_such n \<Longrightarrow> step_ok lib rsp (Some err) rsp' \<longleftrightarrow> advanced lib rsp rsp'"
  by (simp add: step_ok_def advanced_def outcome_other)

lemma consume_step:
  assumes "scan_wf rsp" and "consume rsp t = (res, rsp')" and "t \<noteq> scanner_Ident" and "t \<noteq> scanner_EOF"
  shows "advanced lib rsp rsp'" and "step_ok lib rsp (err_of res) rsp'"
proof -
  from consume_outcome[OF assms, of lib] have a: "advanced lib rsp rsp'"
    and n: "\<forall>n. err_of res \<noteq> Some (no_such n)"
    by (simp_all add: advanced_def)
  show "advanced lib rsp rsp'" by (rule a)
  show "step_ok lib rsp (err_of res) rsp'"
  proof (cases res)
    case (Inl err)
    with n have "\<forall>n. err \<noteq> no_such n" by (simp add: err_of_def)
    with a Inl show ?thesis by (simp add: err_of_def step_ok_other)
  next
    case (Inr x)
    with a show ?thesis by (simp add: err_of_def step_ok_None)
  qed
qed

lemma parseAtom_step:
  assumes "scan_wf rsp" and "parseAtom lib rsp = (res, rsp')"
  shows "step_ok lib rsp (err_of res) rsp'"
proof -
  from parseAtom_outcome[OF assms] have a: "advanced lib rsp rsp'"
    and n: "\<forall>n. err_of res \<noteq> Some (no_such n)"
    by (simp_all add: advanced_def)
  show ?thesis
  proof (cases res)
    case (Inl err)
    with n have "\<forall>n. err \<noteq> no_such n" by (simp add: err_of_def)
    with a Inl show ?thesis by (simp add: err_of_def step_ok_other)
  next
    case (Inr x)
    with a show ?thesis by (simp add: err_of_def step_ok_None)
  qed
qed

lemma consume_Ident_step:
  assumes "scan_wf rsp" and "consume rsp scanner_Ident = (Inr fnName, rsp1)"
  shows "scan_wf rsp1" and "pending rsp = [(scanner_Ident, fnName)] @ pending rsp1"
proof -
  from consume_Inr_tok[OF assms(2)] have t: "tok rsp = scanner_Ident" "rsp1 = nextToken rsp"
    "fnName = tokText rsp" by simp_all
  then have "tok rsp \<noteq> scanner_EOF" by (simp add: scanner_Ident_def scanner_EOF_def)
  from nextToken_pending[OF assms(1) this] t
  show "scan_wf rsp1" and "pending rsp = [(scanner_Ident, fnName)] @ pending rsp1" by simp_all
qed

text \<open>
  Every parsing method consumes a stretch of the pending tokens. All identifiers in it
  resolve, unless the method returns the unknown-function error: then the last token
  consumed is the identifier that error names, it does not resolve, and all identifiers
  before it do.
\<close>

lemma parse_step:
  "scan_wf rsp \<longrightarrow> (\<forall>res rsp'. parseExpr lib rsp = (res, rsp') \<longrightarrow> step_ok lib rsp (err_of res) rsp')"
  "scan_wf rsp \<longrightarrow> (\<forall>res rsp'. parseFn lib rsp = (res, rsp') \<longrightarrow> step_ok lib rsp (err_of res) rsp')"
  "scan_wf rsp \<longrightarrow> (\<forall>res rsp'. parseFnArgs lib rsp args = (res, rsp') \<longrightarrow> step_ok lib rsp (err_of res) rsp')"
proof (induction lib rsp and lib rsp and lib rsp args rule: parseExpr_parseFn_parseFnArgs.induct)
  case (1 lib rsp)
  show ?case
  proof (intro allI impI)
    fix res rsp'
    assume wf: "scan_wf rsp" and s: "parseExpr lib rsp = (res, rsp')"
    show "step_ok lib rsp (err_of res) rsp'"
    proof (cases "tok rsp = scanner_Ident")
      case True
      with s have "parseFn lib rsp = (res, rsp')" by (simp add: parseExpr.simps[of lib rsp])
      with 1[OF True] wf show ?thesis by blast
    next
      case False
      with s have "parseAtom lib rsp = (res, rsp')" by (simp add: parseExpr.simps[of lib rsp])
      from parseAtom_step[OF wf this] show ?thesis .
    qed
  qed
next
  case (2 lib rsp)
  show ?case
  proof (intro allI impI)
    fix res rsp'
    assume wf: "scan_wf rsp" and s: "parseFn lib rsp = (res, rsp')"
    obtain res0 rsp1 where c: "consume rsp scanner_Ident = (res0, rsp1)"
      by (cases "consume rsp scanner_Ident")
    show "step_ok lib rsp (err_of res) rsp'"
    proof (cases res0)
      case (Inl err)
      with c have e: "rsp1 = rsp" "err = etoken scanner_Ident (tok rsp)"
        by (auto simp: consume_def split: if_splits)
      from s c Inl have "res = Inl err" "rsp' = rsp1"
        by (auto simp: parseFn.simps[of lib rsp])
      with e have "res = Inl (etoken scanner_Ident (tok rsp))" "rsp' = rsp"
        by simp_all
      with advanced_refl[OF wf, of lib] show ?thesis
        by (simp add: err_of_def step_ok_other etoken_not_no_such)
    next
      case (Inr fnName)
      note c' = c[unfolded Inr]
      from consume_Ident_step[OF wf c'] have wf1: "scan_wf rsp1"
        and p1: "pending rsp = [(scanner_Ident, fnName)] @ pending rsp1" by simp_all
      show ?thesis
      proof (cases "NATIVE_FUNCTIONS lib fnName")
        case None
        with s c' have r: "res = Inl (no_such fnName)" "rsp' = rsp1"
          by (simp_all add: parseFn.simps[of lib rsp] no_such_def)
        have "outcome lib (Some (no_such fnName)) ([] @ [(scanner_Ident, fnName)])"
          unfolding outcome_def using None by (auto intro: exI[of _ "[]"])
        with wf1 p1 r show ?thesis
          by (auto simp: step_ok_def err_of_def)
      next
        case (Some fn)
        have a1: "advanced lib rsp rsp1"
          unfolding advanced_def using wf1 p1 Some
          by (auto simp: resolved_def intro!: exI[of _ "[(scanner_Ident, fnName)]"])
        show ?thesis
        proof (cases "nextTokenIs rsp1 40")
          case False
          with s c' Some have "res = Inr (RSExprFnCall fn [])" "rsp' = rsp1"
            by (simp_all add: parseFn.simps[of lib rsp])
          with a1 show ?thesis by (simp add: err_of_def step_ok_None)
        next
          case True
          obtain res1 rsp1' where c40: "consume rsp1 40 = (res1, rsp1')"
            by (cases "consume rsp1 40")
          have a2: "advanced lib rsp1 rsp1'"
            by (rule consume_step(1)[OF wf1 c40]) (simp_all add: scanner_Ident_def scanner_EOF_def)
          then have wf1': "scan_wf rsp1'" by (simp add: advanced_def)
          have sc: "snd (consume rsp1 40) = rsp1'" using c40 by simp
          obtain res2 rsp2 where pa: "parseFnArgs lib rsp1' [] = (res2, rsp2)"
            by (cases "parseFnArgs lib rsp1' []")
          from 2[OF c'[symmetric] refl Some True, unfolded sc] wf1' pa
          have st2: "step_ok lib rsp1' (err_of res2) rsp2" by blast
          note a12 = advanced_trans[OF a1 a2]
          show ?thesis
          proof (cases res2)
            case (Inl err)
            with s c' Some True sc pa have "res = Inl err" "rsp' = rsp2"
              by (simp_all add: parseFn.simps[of lib rsp])
            with advanced_step[OF a12 st2] Inl show ?thesis by (simp add: err_of_def)
          next
            case (Inr args)
            with st2 have a3: "advanced lib rsp1' rsp2" by (simp add: err_of_def step_ok_None)
            then have wf2: "scan_wf rsp2" by (simp add: advanced_def)
            obtain res3 rsp3 where c41: "consume rsp2 41 = (res3, rsp3)"
              by (cases "consume rsp2 41")
            have st3: "step_ok lib rsp2 (err_of res3) rsp3"
              by (rule consume_step(2)[OF wf2 c41]) (simp_all add: scanner_Ident_def scanner_EOF_def)
            from s c' Some True sc pa Inr c41 have "err_of res = err_of res3" "rsp' = rsp3"
              by (auto simp: parseFn.simps[of lib rsp] err_of_def split: sum.splits)
            with advanced_step[OF advanced_trans[OF a12 a3] st3] show ?thesis by simp
          qed
        qed
      qed
    qed
  qed
next
  case (3 lib rsp args)
  show ?case
  proof (intro allI impI)
    fix res rsp'
    assume wf: "scan_wf rsp" and s: "parseFnArgs lib rsp args = (res, rsp')"
    show "step_ok lib rsp (err_of res) rsp'"
    proof (cases "tok rsp \<noteq> 41")
      case False
      with s have "res = Inr args" "rsp' = rsp" by (simp_all add: parseFnArgs.simps[of lib rsp])
      with advanced_refl[OF wf, of lib] show ?thesis by (simp add: err_of_def step_ok_None)
    next
      case True
      define c where "c = (if 0 < length args then consume rsp 44 else (Inr [], rsp))"
      obtain res1 rsp1 where c1: "c = (res1, rsp1)" by (cases c)
      have u: "parseFnArgs lib rsp args =
          (case c of
             (Inl err, rsp1) \<Rightarrow> (Inl err, rsp1)
           | (Inr x, rsp1) \<Rightarrow>
               (case parseExpr lib rsp1 of
                  (Inl err, rsp2) \<Rightarrow> (Inl err, rsp2)
                | (Inr arg, rsp2) \<Rightarrow> parseFnArgs lib rsp2 (args @ [arg])))"
        unfolding c_def using True by (subst parseFnArgs.simps) simp
      note s' = s[unfolded u]
      have a1: "advanced lib rsp rsp1" and st1: "step_ok lib rsp (err_of res1) rsp1"
      proof -
        show "advanced lib rsp rsp1"
        proof (cases "0 < length args")
          case True
          with c1 have "consume rsp 44 = (res1, rsp1)" by (simp add: c_def)
          then show ?thesis
            by (rule consume_step(1)[OF wf]) (simp_all add: scanner_Ident_def scanner_EOF_def)
        next
          case False
          with c1 have "rsp1 = rsp" by (simp add: c_def)
          with advanced_refl[OF wf] show ?thesis by simp
        qed
        show "step_ok lib rsp (err_of res1) rsp1"
        proof (cases "0 < length args")
          case True
          with c1 have "consume rsp 44 = (res1, rsp1)" by (simp add: c_def)
          then show ?thesis
            by (rule consume_step(2)[OF wf]) (simp_all add: scanner_Ident_def scanner_EOF_def)
        next
          case False
          with c1 have "rsp1 = rsp" "res1 = Inr []" by (simp_all add: c_def)
          with advanced_refl[OF wf, of lib] show ?thesis by (simp add: err_of_def step_ok_None)
        qed
      qed
      from a1 have wf1: "scan_wf rsp1" by (simp add: advanced_def)
      show ?thesis
      proof (cases res1)
        case (Inl err)
        with s' c1 have "res = Inl err" "rsp' = rsp1"
          by simp_all
        with st1 Inl show ?thesis by (simp add: err_of_def)
      next
        case (Inr x)
        note c1' = c1[unfolded Inr]
        obtain res2 rsp2 where p: "parseExpr lib rsp1 = (res2, rsp2)"
          by (cases "parseExpr lib rsp1")
        from 3(1)[OF True c1'[symmetric, unfolded c_def] refl] wf1 p
        have st2: "step_ok lib rsp1 (err_of res2) rsp2" by blast
        show ?thesis
        proof (cases res2)
          case (Inl err)
          with s' c1' p have "res = Inl err" "rsp' = rsp2"
            by simp_all
          with advanced_step[OF a1 st2] Inl show ?thesis by (simp add: err_of_def)
        next
          case (Inr arg)
          note p' = p[unfolded Inr]
          from st2 Inr have a2: "advanced lib rsp1 rsp2" by (simp add: err_of_def step_ok_None)
          then have wf2: "scan_wf rsp2" by (simp add: advanced_def)
          from s' c1' p' have r: "parseFnArgs lib rsp2 (args @ [arg]) = (res, rsp')"
            by simp
          from 3(2)[OF True c1'[symmetric, unfolded c_def] refl p'[symmetric] refl] wf2 r
          have "step_ok lib rsp2 (err_of res) rsp'" by blast
          from advanced_step[OF advanced_trans[OF a1 a2] this] show ?thesis .
        qed
      qed
    qed
  qed
qed

lemma start_pending:
  assumes "\<forall>kt \<in> set toks. fst kt \<noteq> scanner_EOF"
  shows "scan_wf (nextToken \<lparr>scan = toks, tok = 0, tokText = []\<rparr>)"
    and "pending (nextToken \<lparr>scan = toks, tok = 0, tokText = []\<rparr>) = toks"
  using assms
  by (cases toks; auto simp: scan_wf_def pending_def nextToken_def scanner_EOF_def)+

lemma outcome_iff:
  assumes "outcome lib eo c"
  shows "(\<exists>n. eo = Some (no_such n)) \<longleftrightarrow>
         (\<exists>n. (scanner_Ident, n) \<in> set c \<and> NATIVE_FUNCTIONS lib n = None)"
    and "eo = Some (no_such n) \<Longrightarrow> c \<noteq> [] \<and> last c = (scanner_Ident, n) \<and> NATIVE_FUNCTIONS lib n = None"
proof -
  show "(\<exists>n. eo = Some (no_such n)) \<longleftrightarrow>
         (\<exists>n. (scanner_Ident, n) \<in> set c \<and> NATIVE_FUNCTIONS lib n = None)"
  proof (cases "\<exists>n. eo = Some (no_such n)")
    case True
    with assms obtain c0 n where "c = c0 @ [(scanner_Ident, n)]" "NATIVE_FUNCTIONS lib n = None"
      by (auto simp: outcome_def)
    then have "(scanner_Ident, n) \<in> set c \<and> NATIVE_FUNCTIONS lib n = None" by simp
    with True show ?thesis by blast
  next
    case False
    with assms have "resolved lib c" by (simp add: outcome_def)
    then have "\<not> (\<exists>n. (scanner_Ident, n) \<in> set c \<and> NATIVE_FUNCTIONS lib n = None)"
      by (force simp: resolved_def)
    with False show ?thesis by blast
  qed
  show "c \<noteq> [] \<and> last c = (scanner_Ident, n) \<and> NATIVE_FUNCTIONS lib n = None"
    if "eo = Some (no_such n)"
  proof -
    have "\<exists>m. eo = Some (no_such m)" using that by blast
    with assms obtain c0 m where m: "eo = Some (no_such m)"
      "c = c0 @ [(scanner_Ident, m)]" "NATIVE_FUNCTIONS lib m = None"
      unfolding outcome_def by auto
    from m(1) that have "m = n" by (simp add: no_such_def)
    with m show ?thesis by simp
  qed
qed

lemma nextToken_Cons:
  "k0 \<noteq> scanner_EOF \<Longrightarrow>
     nextToken \<lparr>scan = (k, t) # r, tok = k0, tokText = x\<rparr> = \<lparr>scan = r, tok = k, tokText = t\<rparr>"
  by (simp add: nextToken_def)

lemma bare_identifier:
  assumes "NATIVE_FUNCTIONS lib n = Some fn" and "rest = [] \<or> fst (hd rest) \<noteq> 40"
  shows "parseExpr lib (nextToken \<lparr>scan = (scanner_Ident, n) # rest, tok = 0, tokText = []\<rparr>) =
           (Inr (RSExprFnCall fn []), nextToken \<lparr>scan = rest, tok = 0, tokText = []\<rparr>)"
    and "parseExpr lib (nextToken \<lparr>scan = (scanner_Ident, n) # (40, t1) # (41, t2) # rest, tok = 0, tokText = []\<rparr>) =
           (Inr (RSExprFnCall fn []), nextToken \<lparr>scan = rest, tok = 0, tokText = []\<rparr>)"
proof -
  have t: "tok (nextToken \<lparr>scan = rest, tok = k, tokText = x\<rparr>) \<noteq> 40" if "k \<noteq> scanner_EOF" for k x
    using assms(2) that by (cases rest) (auto simp: nextToken_def scanner_EOF_def)
  have e: "nextToken \<lparr>scan = rest, tok = k, tokText = x\<rparr> = nextToken \<lparr>scan = rest, tok = 0, tokText = []\<rparr>"
    if "k \<noteq> scanner_EOF" for k x
    using that by (cases rest) (auto simp: nextToken_def scanner_EOF_def)
  have i: "scanner_Ident \<noteq> scanner_EOF" "(0::int) \<noteq> scanner_EOF" "(40::int) \<noteq> scanner_EOF"
    "(41::int) \<noteq> scanner_EOF"
    by (simp_all add: scanner_Ident_def scanner_EOF_def)
  let ?b = "\<lparr>scan = rest, tok = scanner_Ident, tokText = n\<rparr>"
  have "parseFn lib ?b = (Inr (RSExprFnCall fn []), nextToken ?b)"
    using assms(1) t[OF i(1), of n]
    by (simp add: parseFn.simps[of lib ?b] consume_def nextTokenIs_def)
  then have "parseExpr lib ?b = (Inr (RSExprFnCall fn []), nextToken \<lparr>scan = rest, tok = 0, tokText = []\<rparr>)"
    by (simp add: parseExpr.simps[of lib ?b] e[OF i(1)])
  then show "parseExpr lib (nextToken \<lparr>scan = (scanner_Ident, n) # rest, tok = 0, tokText = []\<rparr>) =
           (Inr (RSExprFnCall fn []), nextToken \<lparr>scan = rest, tok = 0, tokText = []\<rparr>)"
    by (simp only: nextToken_Cons[OF i(2)])
  let ?p0 = "\<lparr>scan = (40, t1) # (41, t2) # rest, tok = scanner_Ident, tokText = n\<rparr>"
  let ?p1 = "\<lparr>scan = (41, t2) # rest, tok = 40, tokText = t1\<rparr>"
  let ?p2 = "\<lparr>scan = rest, tok = 41, tokText = t2\<rparr>"
  have c0: "consume ?p0 scanner_Ident = (Inr n, ?p1)"
    by (simp add: consume_def nextToken_Cons[OF i(1)])
  have c1: "consume ?p1 40 = (Inr t1, ?p2)"
    by (simp add: consume_def nextToken_Cons[OF i(3)])
  have a: "parseFnArgs lib ?p2 [] = (Inr [], ?p2)"
    by (simp add: parseFnArgs.simps[of lib ?p2])
  have c2: "consume ?p2 41 = (Inr t2, nextToken ?p2)"
    by (simp add: consume_def)
  have "parseFn lib ?p0 = (Inr (RSExprFnCall fn []), nextToken ?p2)"
    using assms(1) by (simp add: parseFn.simps[of lib ?p0] c0 c1 a c2 nextTokenIs_def)
  then have "parseExpr lib ?p0 = (Inr (RSExprFnCall fn []), nextToken \<lparr>scan = rest, tok = 0, tokText = []\<rparr>)"
    by (simp add: parseExpr.simps[of lib ?p0] e[OF i(4)])
  then show "parseExpr lib (nextToken \<lparr>scan = (scanner_Ident, n) # (40, t1) # (41, t2) # rest, tok = 0, tokText = []\<rparr>) =
           (Inr (RSExprFnCall fn []), nextToken \<lparr>scan = rest, tok = 0, tokText = []\<rparr>)"
    by (simp only: nextToken_Cons[OF i(2)])
qed

text \<open>
  Claim C6. Let \<open>parsed\<close> be the tokens the parser has consumed when \<open>ParseRSExpr\<close>
  returns (the scanner's output without what is still pending). The parse fails with the
  unknown-function error exactly when one of the parsed tokens is an identifier that the
  registry of native functions does not resolve; the error names the last parsed token.
  A bare identifier that resolves and is not followed by an opening parenthesis parses to
  a function call with an empty argument list and leaves the parser where the same
  identifier followed by \<open>()\<close> leaves it, with the same AST; so the two forms are
  equivalent, as whole expressions and as arguments.
\<close>

theorem unknown_function_and_bare_identifier:
  "((\<forall>kt \<in> set (scanner_Scan lib expr). fst kt \<noteq> scanner_EOF) \<longrightarrow>
      (let toks = scanner_Scan lib expr;
           rsp0 = nextToken \<lparr>scan = toks, tok = 0, tokText = []\<rparr>;
           parsed = take (length toks - remaining (snd (parseExpr lib rsp0))) toks
       in ((\<exists>m. ParseRSExpr lib expr = Inl (Errorf (''No such function: '' @ m))) \<longleftrightarrow>
           (\<exists>m. (scanner_Ident, m) \<in> set parsed \<and> NATIVE_FUNCTIONS lib m = None)) \<and>
          (\<forall>m. ParseRSExpr lib expr = Inl (Errorf (''No such function: '' @ m)) \<longrightarrow>
               parsed \<noteq> [] \<and> last parsed = (scanner_Ident, m) \<and> NATIVE_FUNCTIONS lib m = None))) \<and>
   (NATIVE_FUNCTIONS lib n = Some fn \<and> (rest = [] \<or> fst (hd rest) \<noteq> 40) \<longrightarrow>
      parseExpr lib (nextToken \<lparr>scan = (scanner_Ident, n) # rest, tok = 0, tokText = []\<rparr>) =
        (Inr (RSExprFnCall fn []), nextToken \<lparr>scan = rest, tok = 0, tokText = []\<rparr>) \<and>
      parseExpr lib (nextToken \<lparr>scan = (scanner_Ident, n) # (40, t1) # (41, t2) # rest, tok = 0, tokText = []\<rparr>) =
        (Inr (RSExprFnCall fn []), nextToken \<lparr>scan = rest, tok = 0, tokText = []\<rparr>) \<and>
      (scanner_Scan lib e1 = (scanner_Ident, n) # rest \<and>
       scanner_Scan lib e2 = (scanner_Ident, n) # (40, t1) # (41, t2) # rest \<longrightarrow>
         ParseRSExpr lib e1 = Inr (RSExprFnCall fn []) \<and>
         ParseRSExpr lib e2 = Inr (RSExprFnCall fn [])))"
proof (intro conjI impI)
  assume wf: "\<forall>kt \<in> set (scanner_Scan lib expr). fst kt \<noteq> scanner_EOF"
  let ?toks = "scanner_Scan lib expr"
  let ?rsp0 = "nextToken \<lparr>scan = ?toks, tok = 0, tokText = []\<rparr>"
  obtain res rsp' where p: "parseExpr lib ?rsp0 = (res, rsp')" by (cases "parseExpr lib ?rsp0")
  from parse_step(1)[of ?rsp0 lib] start_pending(1)[OF wf] p
  have "step_ok lib ?rsp0 (err_of res) rsp'" by blast
  then obtain c where c: "?toks = c @ pending rsp'" and o: "outcome lib (err_of res) c"
    unfolding step_ok_def start_pending(2)[OF wf] by blast
  have "length ?toks - remaining rsp' = length c"
    unfolding remaining_pending by (subst c) simp
  then have parsed: "take (length ?toks - remaining (snd (parseExpr lib ?rsp0))) ?toks = c"
    unfolding p snd_conv by (subst (2) c) simp
  have r: "ParseRSExpr lib expr = Inl err \<longleftrightarrow> err_of res = Some err" for err
    using p by (cases res) (simp_all add: ParseRSExpr_def Let_def err_of_def)
  have "(\<exists>m. ParseRSExpr lib expr = Inl (Errorf (''No such function: '' @ m))) \<longleftrightarrow>
           (\<exists>m. (scanner_Ident, m) \<in> set c \<and> NATIVE_FUNCTIONS lib m = None)"
    using outcome_iff(1)[OF o] unfolding r no_such_def .
  moreover have "\<forall>m. ParseRSExpr lib expr = Inl (Errorf (''No such function: '' @ m)) \<longrightarrow>
               c \<noteq> [] \<and> last c = (scanner_Ident, m) \<and> NATIVE_FUNCTIONS lib m = None"
    using outcome_iff(2)[OF o] unfolding r no_such_def by blast
  ultimately show "let toks = scanner_Scan lib expr;
           rsp0 = nextToken \<lparr>scan = toks, tok = 0, tokText = []\<rparr>;
           parsed = take (length toks - remaining (snd (parseExpr lib rsp0))) toks
       in ((\<exists>m. ParseRSExpr lib expr = Inl (Errorf (''No such function: '' @ m))) \<longleftrightarrow>
           (\<exists>m. (scanner_Ident, m) \<in> set parsed \<and> NATIVE_FUNCTIONS lib m = None)) \<and>
          (\<forall>m. ParseRSExpr lib expr = Inl (Errorf (''No such function: '' @ m)) \<longrightarrow>
               parsed \<noteq> [] \<and> last parsed = (scanner_Ident, m) \<and> NATIVE_FUNCTIONS lib m = None)"
    unfolding Let_def parsed by (rule conjI)
next
  assume a: "NATIVE_FUNCTIONS lib n = Some fn \<and> (rest = [] \<or> fst (hd rest) \<noteq> 40)"
  then show "parseExpr lib (nextToken \<lparr>scan = (scanner_Ident, n) # rest, tok = 0, tokText = []\<rparr>) =
        (Inr (RSExprFnCall fn []), nextToken \<lparr>scan = rest, tok = 0, tokText = []\<rparr>)"
    using bare_identifier(1) by blast
next
  assume a: "NATIVE_FUNCTIONS lib n = Some fn \<and> (rest = [] \<or> fst (hd rest) \<noteq> 40)"
  then show "parseExpr lib (nextToken \<lparr>scan = (scanner_Ident, n) # (40, t1) # (41, t2) # rest, tok = 0, tokText = []\<rparr>) =
        (Inr (RSExprFnCall fn []), nextToken \<lparr>scan = rest, tok = 0, tokText = []\<rparr>)"
    using bare_identifier(2) by blast
next
  assume a: "NATIVE_FUNCTIONS lib n = Some fn \<and> (rest = [] \<or> fst (hd rest) \<noteq> 40)"
    and b: "scanner_Scan lib e1 = (scanner_Ident, n) # rest \<and>
       scanner_Scan lib e2 = (scanner_Ident, n) # (40, t1) # (41, t2) # rest"
  from a bare_identifier(1)[of lib n fn rest] b
  show "ParseRSExpr lib e1 = Inr (RSExprFnCall fn [])"
    by (simp add: ParseRSExpr_def Let_def)
next
  assume a: "NATIVE_FUNCTIONS lib n = Some fn \<and> (rest = [] \<or> fst (hd rest) \<noteq> 40)"
    and b: "scanner_Scan lib e1 = (scanner_Ident, n) # rest \<and>
       scanner_Scan lib e2 = (scanner_Ident, n) # (40, t1) # (41, t2) # rest"
  from a bare_identifier(2)[of lib n fn rest t1 t2] b
  show "ParseRSExpr lib e2 = Inr (RSExprFnCall fn [])"
    by (simp add: ParseRSExpr_def Let_def)
qed

theorem unknown_function_and_bare_identifier_witness:
  "scanner_EOF \<notin> fst ` set (scanner_Scan example_lib ''concat(urn, foo)'') \<and>
   ParseRSExpr example_lib ''concat(urn, foo)'' = Inl (Errorf ''No such function: foo'') \<and>
   (\<exists>m. (scanner_Ident, m) \<in> set (take (length (scanner_Scan example_lib ''concat(urn, foo)'') -
        remaining (snd (parseExpr example_lib
          (nextToken \<lparr>scan = scanner_Scan example_lib ''concat(urn, foo)'', tok = 0, tokText = []\<rparr>))))
        (scanner_Scan example_lib ''concat(urn, foo)'')) \<and> NATIVE_FUNCTIONS example_lib m = None) \<and>
   NATIVE_FUNCTIONS example_lib ''urn'' = Some fn_urn \<and>
   scanner_Scan example_lib ''urn'' = [(scanner_Ident, ''urn'')] \<and>
   scanner_Scan example_lib ''urn()'' = [(scanner_Ident, ''urn''), (40, ''(''), (41, '')'')] \<and>
   ParseRSExpr example_lib ''urn'' = Inr (RSExprFnCall fn_urn []) \<and>
   ParseRSExpr example_lib ''urn()'' = Inr (RSExprFnCall fn_urn [])"
proof -
  let ?e = "''concat(urn, foo)''"
  note th = unknown_function_and_bare_identifier[of example_lib ?e "''urn''" fn_urn "[]" "''(''" "'')''"
      "''urn''" "''urn()''", unfolded Let_def]
  have wf: "\<forall>kt \<in> set (scanner_Scan example_lib ?e). fst kt \<noteq> scanner_EOF"
    by (simp add: example_lib_def scanner_EOF_def)
  have f: "ParseRSExpr example_lib ?e = Inl (Errorf (''No such function: '' @ ''foo''))"
    by (simp add: ParseRSExpr_def example_lib_def nextToken_def scanner_EOF_def
      parseExpr.simps parseFn.simps parseFnArgs.simps scanner_Ident_def consume_def NATIVE_FUNCTIONS_def
      nextTokenIs_def parseAtom_def readString_def scanner_String_def scanner_RawString_def)
  then have ex: "\<exists>m. ParseRSExpr example_lib ?e = Inl (Errorf (''No such function: '' @ m))" by blast
  from th[THEN conjunct1, THEN mp, OF wf, THEN conjunct1] ex
  have p: "\<exists>m. (scanner_Ident, m) \<in> set (take (length (scanner_Scan example_lib ?e) -
        remaining (snd (parseExpr example_lib
          (nextToken \<lparr>scan = scanner_Scan example_lib ?e, tok = 0, tokText = []\<rparr>))))
        (scanner_Scan example_lib ?e)) \<and> NATIVE_FUNCTIONS example_lib m = None"
    by blast
  have n: "NATIVE_FUNCTIONS example_lib ''urn'' = Some fn_urn"
    by (simp add: NATIVE_FUNCTIONS_def)
  have s1: "scanner_Scan example_lib ''urn'' = [(scanner_Ident, ''urn'')]"
    and s2: "scanner_Scan example_lib ''urn()'' = [(scanner_Ident, ''urn''), (40, ''(''), (41, '')'')]"
    by (simp_all add: example_lib_def scanner_Ident_def)
  from th[THEN conjunct2] n s1 s2
  have b: "ParseRSExpr example_lib ''urn'' = Inr (RSExprFnCall fn_urn [])"
    "ParseRSExpr example_lib ''urn()'' = Inr (RSExprFnCall fn_urn [])"
    by simp_all
  have wf': "scanner_EOF \<notin> fst ` set (scanner_Scan example_lib ?e)"
    using wf by force
  from wf' f p n s1 s2 b show ?thesis by simp
qed

end
